theory Spec2Isabelle
  imports Main "HOL-Library.AList" "HOL-Library.Word"
begin

section \<open>Values, paths and the local file tree\<close>

text \<open>
  The script \<^verbatim>\<open>upload_to_gaio_inputs.py\<close> is embedded function by function. Everything it
  does to the outside (local files, spawned \<^verbatim>\<open>ssh\<close>/\<^verbatim>\<open>scp\<close> processes, the clock, the log)
  is explicit state passing over a \<open>world\<close>; what the outside answers is read from an
  \<open>env\<close> of oracles. A raised Python \<^verbatim>\<open>Exception\<close> is the left summand of the result and
  carries \<^verbatim>\<open>str(e)\<close>. Standard output is not modelled.
\<close>

datatype exn = Exception string

type_synonym byte = "8 word"

text \<open>A resolved absolute local path is the list of its components; \<open>[]\<close> is the root.\<close>

type_synonym path = "string list"

datatype node = File "byte list" | Dir

text \<open>
  The local tree is an association list: the order of its keys is the order in which a
  directory scan meets them (Python leaves that order to the operating system).
\<close>

type_synonym fsys = "(path \<times> node) list"

definition str_path :: "path \<Rightarrow> string" where
  "str_path p = (if p = [] then ''/'' else concat (map (\<lambda>c. CHR ''/'' # c) p))"

definition name :: "path \<Rightarrow> string" where
  "name p = (if p = [] then [] else last p)"

text \<open>\<^verbatim>\<open>str.rfind\<close>: the last index of the character, \<open>-1\<close> when it does not occur.\<close>

fun rfind :: "char \<Rightarrow> string \<Rightarrow> int" where
  "rfind c [] = - 1"
| "rfind c (x # xs) =
     (let r = rfind c xs in if 0 \<le> r then r + 1 else if x = c then 0 else - 1)"

text \<open>\<^verbatim>\<open>PurePath.suffix\<close> and \<^verbatim>\<open>PurePath.stem\<close>: split the name at its last dot, unless
  that dot is the first or the last character.\<close>

definition suffix :: "path \<Rightarrow> string" where
  "suffix p =
     (let n = name p; i = rfind (CHR ''.'') n
      in if 0 < i \<and> i < int (length n) - 1 then drop (nat i) n else [])"

definition stem :: "path \<Rightarrow> string" where
  "stem p =
     (let n = name p; i = rfind (CHR ''.'') n
      in if 0 < i \<and> i < int (length n) - 1 then take (nat i) n else n)"

definition path_exists :: "fsys \<Rightarrow> path \<Rightarrow> bool" where
  "path_exists t p = (p = [] \<or> map_of t p \<noteq> None)"

definition is_dir :: "fsys \<Rightarrow> path \<Rightarrow> bool" where
  "is_dir t p = (p = [] \<or> map_of t p = Some Dir)"

definition is_file :: "fsys \<Rightarrow> path \<Rightarrow> bool" where
  "is_file t p = (case map_of t p of Some (File c) \<Rightarrow> True | _ \<Rightarrow> False)"

subsection \<open>Decimal rendering of integers (\<^verbatim>\<open>str(int)\<close>)\<close>

fun str_nat :: "nat \<Rightarrow> string" where
  "str_nat n =
     (if n < 10 then [''0123456789'' ! n]
      else str_nat (n div 10) @ [''0123456789'' ! (n mod 10)])"

declare str_nat.simps [simp del]

definition str_int :: "int \<Rightarrow> string" where
  "str_int i = (if i < 0 then CHR ''-'' # str_nat (nat (- i)) else str_nat (nat i))"

subsection \<open>Local file operations, each on the tree alone\<close>

definition errno :: "string \<Rightarrow> path \<Rightarrow> exn" where
  "errno what p = Exception (what @ '': '' @ [CHR 0x27] @ str_path p @ [CHR 0x27])"

text \<open>\<^verbatim>\<open>f.stat().st_size\<close>. The size reported for a directory is left at 0: the run only
  calls it on paths that a scan has just reported as regular files.\<close>

definition stat_size :: "path \<Rightarrow> fsys \<Rightarrow> exn + nat \<times> fsys" where
  "stat_size p t =
     (case map_of t p of
        Some (File c) \<Rightarrow> Inr (length c, t)
      | Some Dir \<Rightarrow> Inr (0, t)
      | None \<Rightarrow> if p = [] then Inr (0, t)
                else Inl (errno ''[Errno 2] No such file or directory'' p))"

text \<open>\<^verbatim>\<open>path.open("rb")\<close>: the open file, that is the bytes it holds, none of them read yet.\<close>

definition open_rb :: "path \<Rightarrow> fsys \<Rightarrow> exn + byte list \<times> fsys" where
  "open_rb p t =
     (case map_of t p of
        Some (File c) \<Rightarrow> Inr (c, t)
      | Some Dir \<Rightarrow> Inl (errno ''[Errno 21] Is a directory'' p)
      | None \<Rightarrow> if p = [] then Inl (errno ''[Errno 21] Is a directory'' p)
                else Inl (errno ''[Errno 2] No such file or directory'' p))"

text \<open>\<^verbatim>\<open>Path.unlink()\<close>.\<close>

definition unlink :: "path \<Rightarrow> fsys \<Rightarrow> exn + unit \<times> fsys" where
  "unlink p t =
     (case map_of t p of
        Some (File c) \<Rightarrow> Inr ((), AList.delete p t)
      | Some Dir \<Rightarrow> Inl (errno ''[Errno 21] Is a directory'' p)
      | None \<Rightarrow> if p = [] then Inl (errno ''[Errno 21] Is a directory'' p)
                else Inl (errno ''[Errno 2] No such file or directory'' p))"

text \<open>
  \<^verbatim>\<open>Path.mkdir(parents=True, exist_ok=True)\<close>, as pathlib writes it: try the directory
  itself; when it exists it must be a directory; when its parent is missing, make the
  parent first.
\<close>

function mkdir_parents :: "path \<Rightarrow> fsys \<Rightarrow> exn + fsys" where
  "mkdir_parents p t =
     (if path_exists t p then
        (if is_dir t p then Inr t else Inl (errno ''[Errno 17] File exists'' p))
      else if is_dir t (butlast p) then Inr (t @ [(p, Dir)])
      else if path_exists t (butlast p) then Inl (errno ''[Errno 20] Not a directory'' p)
      else (case mkdir_parents (butlast p) t of
              Inl e \<Rightarrow> Inl e
            | Inr t' \<Rightarrow> Inr (t' @ [(p, Dir)])))"
  by pat_completeness auto
termination
  by (relation "measure (\<lambda>(p, t). length p)") (auto simp: path_exists_def)

declare mkdir_parents.simps [simp del]

definition mkdir :: "path \<Rightarrow> fsys \<Rightarrow> exn + unit \<times> fsys" where
  "mkdir p t = (case mkdir_parents p t of Inl e \<Rightarrow> Inl e | Inr t' \<Rightarrow> Inr ((), t'))"

text \<open>
  \<^verbatim>\<open>shutil.move(src, dst)\<close> for a regular file \<open>src\<close>: into \<open>dst\<close> when that is a directory
  (refusing a name already there), else a rename onto \<open>dst\<close>, which replaces a file
  already at \<open>dst\<close>. The run only moves a path it has just read as a regular file; the
  move of a directory is not modelled and reported as an error.
\<close>

definition rename_file :: "path \<Rightarrow> byte list \<Rightarrow> path \<Rightarrow> fsys \<Rightarrow> fsys" where
  "rename_file src c dst t = AList.update dst (File c) (AList.delete src t)"

definition shutil_move :: "path \<Rightarrow> path \<Rightarrow> fsys \<Rightarrow> exn + unit \<times> fsys" where
  "shutil_move src dst t =
     (case map_of t src of
        None \<Rightarrow> Inl (errno ''[Errno 2] No such file or directory'' src)
      | Some Dir \<Rightarrow> Inl (errno ''directory move not modelled'' src)
      | Some (File c) \<Rightarrow>
          if is_dir t dst then
            (let real_dst = dst @ [name src]
             in if path_exists t real_dst
                then Inl (Exception (''Destination path '' @ [CHR 0x27] @ str_path real_dst
                                     @ [CHR 0x27] @ '' already exists''))
                else Inr ((), rename_file src c real_dst t))
          else if is_dir t (butlast dst) then Inr ((), rename_file src c dst t)
          else Inl (errno ''[Errno 2] No such file or directory'' dst))"

section \<open>Configuration, environment and world\<close>

text \<open>\<^verbatim>\<open>config.Settings\<close>.\<close>

record settings =
  host :: string
  port :: int
  user :: string
  key_path :: string
  remote_dir :: string

text \<open>
  The parsed arguments. Lines 145 to 147 of \<^verbatim>\<open>main\<close> only resolve the three directory
  arguments to absolute paths; the record holds them resolved.
\<close>

record args =
  local_dir :: path
  sent_dir :: path
  logs_dir :: path
  pattern :: string
  recursive :: bool
  overwrite :: bool
  keep_local :: bool
  delete_after :: bool
  dry_run :: bool

text \<open>
  What the script takes from libraries and from the outside:
  \<^item> \<open>sha256\<close>: the hex digest that \<^verbatim>\<open>hashlib.sha256\<close> gives for a byte sequence;
  \<^item> \<open>glob_match\<close>: whether a path relative to the scanned directory matches a
    \<^verbatim>\<open>Path.glob\<close> pattern;
  \<^item> \<open>glob_error\<close>: the error, if any, that \<^verbatim>\<open>Path.glob\<close> (for \<open>False\<close>) or \<^verbatim>\<open>Path.rglob\<close>
    (for \<open>True\<close>) raises for a pattern it does not accept;
  \<^item> \<open>resolve\<close>: \<^verbatim>\<open>Path(s).expanduser().resolve()\<close>;
  \<^item> \<open>proc_result\<close>: what \<^verbatim>\<open>subprocess.call\<close> gives for the \<open>n\<close>-th spawned process
    (an exit status, or an exception when the program cannot be started);
  \<^item> \<open>io_fault\<close>: the error, if any, that the operating system raises at the \<open>n\<close>-th
    local input/output operation whatever the tree holds (permissions, a full disk);
  \<^item> \<open>now_local\<close>, \<open>now_utc\<close>: the clock at its \<open>n\<close>-th reading, already formatted as
    \<^verbatim>\<open>%Y%m%d_%H%M%S\<close> and as \<^verbatim>\<open>utc_iso\<close> formats it.
\<close>

record env =
  sha256 :: "byte list \<Rightarrow> string"
  glob_match :: "string \<Rightarrow> path \<Rightarrow> bool"
  glob_error :: "bool \<Rightarrow> string \<Rightarrow> string option"
  resolve :: "string \<Rightarrow> path"
  proc_result :: "nat \<Rightarrow> string list \<Rightarrow> exn + int"
  io_fault :: "nat \<Rightarrow> string option"
  now_local :: "nat \<Rightarrow> string"
  now_utc :: "nat \<Rightarrow> string"

datatype status = Uploaded | SkippedRemoteExists | Failed

text \<open>The \<^verbatim>\<open>entry\<close> dictionary of one file (its \<^verbatim>\<open>event\<close> key is the constructor below).\<close>

record file_entry =
  ts :: string
  local_path :: string
  remote_path :: string
  size_bytes :: nat
  sha256_hex :: "string option"
  status :: "status option"
  error :: "string option"

datatype run_status = Ok | PartialFail

record summary =
  s_ts :: string
  s_status :: run_status
  s_local_dir :: string
  s_remote_dir :: string
  s_pattern :: string
  s_recursive :: bool
  s_overwrite :: bool
  s_keep_local :: bool
  s_delete_after :: bool
  s_dry_run :: bool
  count_total :: nat
  count_uploaded :: nat
  count_skipped :: nat
  count_failed :: nat
  log_file :: string

text \<open>One line of the log: a file event, the summary, or the \<^verbatim>\<open>no_files\<close> record
  (time stamp, local directory, pattern).\<close>

datatype logrec = FileEvent file_entry | RunEnd summary | NoFiles string string string

text \<open>
  The world: the local tree without the log directory, the lines appended to log files
  (with the file each went to), the processes spawned so far, how many input/output
  operations and clock readings have happened, and the number of bytes that each call of
  \<^verbatim>\<open>read\<close> on a file has returned so far. The log directory is kept apart from \<open>tree\<close>:
  \<^verbatim>\<open>write_jsonl\<close> is the only code that touches it.
\<close>

record world =
  tree :: fsys
  logs :: "(path \<times> logrec) list"
  procs :: "string list list"
  io_ops :: nat
  clock_reads :: nat
  reads :: "nat list"

text \<open>One local input/output operation: the operating system may refuse it; otherwise
  the operation runs on the tree.\<close>

definition io_op :: "env \<Rightarrow> (fsys \<Rightarrow> exn + 'a \<times> fsys) \<Rightarrow> world \<Rightarrow> (exn + 'a) \<times> world" where
  "io_op ev f w =
     (let w' = w\<lparr>io_ops := Suc (io_ops w)\<rparr>
      in case io_fault ev (io_ops w) of
           Some m \<Rightarrow> (Inl (Exception m), w')
         | None \<Rightarrow> (case f (tree w) of
                      Inl e \<Rightarrow> (Inl e, w')
                    | Inr (x, t') \<Rightarrow> (Inr x, w'\<lparr>tree := t'\<rparr>)))"

section \<open>The functions of the script\<close>

definition utc_iso :: "env \<Rightarrow> world \<Rightarrow> string \<times> world" where
  "utc_iso ev w = (now_utc ev (clock_reads w), w\<lparr>clock_reads := Suc (clock_reads w)\<rparr>)"

text \<open>\<^verbatim>\<open>datetime.now().strftime("%Y%m%d_%H%M%S")\<close>.\<close>

definition now_stamp :: "env \<Rightarrow> world \<Rightarrow> string \<times> world" where
  "now_stamp ev w = (now_local ev (clock_reads w), w\<lparr>clock_reads := Suc (clock_reads w)\<rparr>)"

subsection \<open>\<^verbatim>\<open>sha256_file\<close>\<close>

text \<open>
  An open file is the bytes not yet read. \<^verbatim>\<open>f.read(n)\<close> returns the next chunk, at most
  \<open>n\<close> bytes (all that is left when \<open>n\<close> is negative), leaves the rest, and the world
  notes how many bytes the call returned.
\<close>

definition fread :: "int \<Rightarrow> byte list \<Rightarrow> world \<Rightarrow> (byte list \<times> byte list) \<times> world" where
  "fread n rest w =
     (let b = (if n < 0 then rest else take (nat n) rest)
      in ((b, drop (length b) rest), w\<lparr>reads := reads w @ [length b]\<rparr>))"

text \<open>
  The hash object of \<^verbatim>\<open>hashlib.sha256()\<close> is the data it has been fed: \<^verbatim>\<open>h.update(b)\<close>
  appends, and \<^verbatim>\<open>h.hexdigest()\<close> is the digest of all of it, as hashlib documents.
\<close>

definition hash_update :: "byte list \<Rightarrow> byte list \<Rightarrow> byte list" where
  "hash_update h b = h @ b"

definition hexdigest :: "env \<Rightarrow> byte list \<Rightarrow> string" where
  "hexdigest ev h = sha256 ev h"

text \<open>The \<^verbatim>\<open>while True\<close> loop of \<^verbatim>\<open>sha256_file\<close>.\<close>

function sha256_loop :: "int \<Rightarrow> byte list \<Rightarrow> byte list \<Rightarrow> world \<Rightarrow> byte list \<times> world" where
  "sha256_loop n rest h w =
     (if fst (fst (fread n rest w)) = [] then (h, snd (fread n rest w))
      else sha256_loop n (snd (fst (fread n rest w)))
             (hash_update h (fst (fst (fread n rest w)))) (snd (fread n rest w)))"
  by pat_completeness auto
termination
  by (relation "measure (\<lambda>(n, rest, h, w). length rest)")
     (auto simp: fread_def Let_def split: if_splits)

declare sha256_loop.simps [simp del]

text \<open>Opening the file is one input/output operation; then the loop reads it.\<close>

definition sha256_file :: "env \<Rightarrow> path \<Rightarrow> int \<Rightarrow> world \<Rightarrow> (exn + string) \<times> world" where
  "sha256_file ev p chunk_size w =
     (case io_op ev (open_rb p) w of
        (Inl e, w') \<Rightarrow> (Inl e, w')
      | (Inr f, w') \<Rightarrow>
          (case sha256_loop chunk_size f [] w' of
             (h, w'') \<Rightarrow> (Inr (hexdigest ev h), w'')))"

subsection \<open>Remote commands\<close>

definition run_cmd :: "env \<Rightarrow> string list \<Rightarrow> bool \<Rightarrow> world \<Rightarrow> (exn + int) \<times> world" where
  "run_cmd ev cmd dry w =
     (if dry then (Inr 0, w)
      else (proc_result ev (length (procs w)) cmd, w\<lparr>procs := procs w @ [cmd]\<rparr>))"

definition ssh_cmd :: "settings \<Rightarrow> string \<Rightarrow> string list" where
  "ssh_cmd s remote_command =
     [''ssh'', ''-i'', key_path s, ''-p'', str_int (port s), user s @ ''@'' @ host s,
      remote_command]"

definition ensure_remote_dir :: "env \<Rightarrow> settings \<Rightarrow> bool \<Rightarrow> world \<Rightarrow> (exn + unit) \<times> world" where
  "ensure_remote_dir ev s dry w =
     (case run_cmd ev (ssh_cmd s (''mkdir -p '' @ [CHR 0x27] @ remote_dir s @ [CHR 0x27])) dry w of
        (Inl e, w') \<Rightarrow> (Inl e, w')
      | (Inr code, w') \<Rightarrow>
          if code \<noteq> 0
          then (Inl (Exception (''Falha ao criar/verificar pasta remota (exit='' @ str_int code
                                @ '').'')), w')
          else (Inr (), w'))"

definition remote_file_exists ::
  "env \<Rightarrow> settings \<Rightarrow> string \<Rightarrow> bool \<Rightarrow> world \<Rightarrow> (exn + bool) \<times> world" where
  "remote_file_exists ev s rp dry w =
     (let cmd = ssh_cmd s (''test -f '' @ [CHR 0x27] @ rp @ [CHR 0x27])
      in if dry then (Inr False, w)
         else (case run_cmd ev cmd False w of
                 (Inl e, w') \<Rightarrow> (Inl e, w')
               | (Inr code, w') \<Rightarrow> (Inr (code = 0), w')))"

definition scp_upload ::
  "env \<Rightarrow> settings \<Rightarrow> path \<Rightarrow> string \<Rightarrow> bool \<Rightarrow> world \<Rightarrow> (exn + unit) \<times> world" where
  "scp_upload ev s local_file rp dry w =
     (let cmd = [''scp'', ''-i'', key_path s, ''-P'', str_int (port s), str_path local_file,
                 user s @ ''@'' @ host s @ '':'' @ rp]
      in case run_cmd ev cmd dry w of
           (Inl e, w') \<Rightarrow> (Inl e, w')
         | (Inr code, w') \<Rightarrow>
             if code \<noteq> 0
             then (Inl (Exception (''SCP falhou (exit='' @ str_int code @ '').'')), w')
             else (Inr (), w'))"

subsection \<open>Discovery, log output\<close>

text \<open>
  \<^verbatim>\<open>list(iter_files(...))\<close>. Both \<^verbatim>\<open>glob\<close> and \<^verbatim>\<open>rglob\<close> raise for a pattern they do not
  accept; \<^verbatim>\<open>rglob(p)\<close> is \<^verbatim>\<open>glob\<close> with \<^verbatim>\<open>**/\<close> in front of the pattern; only regular files
  qualify.
\<close>

definition iter_files :: "env \<Rightarrow> path \<Rightarrow> string \<Rightarrow> bool \<Rightarrow> fsys \<Rightarrow> exn + path list" where
  "iter_files ev base_dir pat rec t =
     (case glob_error ev rec pat of
        Some m \<Rightarrow> Inl (Exception m)
      | None \<Rightarrow>
          Inr (filter (\<lambda>p. take (length base_dir) p = base_dir \<and> length base_dir < length p
                           \<and> glob_match ev (if rec then ''**/'' @ pat else pat)
                                 (drop (length base_dir) p)
                           \<and> is_file t p)
                      (map fst t)))"

text \<open>Creating the log directory, opening the file for append and writing the line is
  one input/output operation; it either raises or appends the record.\<close>

definition write_jsonl :: "env \<Rightarrow> path \<Rightarrow> logrec \<Rightarrow> world \<Rightarrow> (exn + unit) \<times> world" where
  "write_jsonl ev lf obj w =
     (let w' = w\<lparr>io_ops := Suc (io_ops w)\<rparr>
      in case io_fault ev (io_ops w) of
           Some m \<Rightarrow> (Inl (Exception m), w')
         | None \<Rightarrow> (Inr (), w'\<lparr>logs := logs w' @ [(lf, obj)]\<rparr>))"

definition make_log_path :: "env \<Rightarrow> path \<Rightarrow> world \<Rightarrow> path \<times> world" where
  "make_log_path ev ld w =
     (case now_stamp ev w of (stamp, w') \<Rightarrow> (ld @ [''upload_'' @ stamp @ ''.jsonl''], w'))"

text \<open>\<^verbatim>\<open>validate_env\<close>: the key must exist. Its hint about the key's permission bits only
  prints and is left out.\<close>

definition validate_env :: "env \<Rightarrow> settings \<Rightarrow> world \<Rightarrow> exn + unit" where
  "validate_env ev s w =
     (let kp = resolve ev (key_path s)
      in if \<not> path_exists (tree w) kp
         then Inl (Exception (''Chave n'' @ [CHR 0xC3, CHR 0xA3] @ ''o encontrada: '' @ str_path kp))
         else Inr ())"

subsection \<open>The remote destination\<close>

text \<open>
  \<^verbatim>\<open>str(Path(s.remote_dir) / f.name)\<close> with POSIX paths: \<^verbatim>\<open>posixpath.join\<close> of the two
  strings, then the normal form that \<^verbatim>\<open>PurePosixPath\<close> prints (empty and \<^verbatim>\<open>.\<close> components
  dropped, one leading slash, or two when there are exactly two).
\<close>

fun split_slash :: "string \<Rightarrow> string list" where
  "split_slash [] = [[]]"
| "split_slash (c # cs) =
     (if c = CHR ''/'' then [] # split_slash cs
      else (case split_slash cs of [] \<Rightarrow> [[c]] | x # xs \<Rightarrow> (c # x) # xs))"

fun join_slash :: "string list \<Rightarrow> string" where
  "join_slash [] = []"
| "join_slash [x] = x"
| "join_slash (x # y # ys) = x @ ''/'' @ join_slash (y # ys)"

definition posix_join :: "string \<Rightarrow> string \<Rightarrow> string" where
  "posix_join a b =
     (if take 1 b = ''/'' then b
      else if a = [] \<or> last a = CHR ''/'' then a @ b
      else a @ ''/'' @ b)"

definition posix_str :: "string \<Rightarrow> string" where
  "posix_str s =
     (let parts = filter (\<lambda>c. c \<noteq> [] \<and> c \<noteq> ''.'') (split_slash s);
          root = (if take 2 s = ''//'' \<and> take 3 s \<noteq> ''///'' then ''//''
                  else if take 1 s = ''/'' then ''/'' else [])
      in if root = [] \<and> parts = [] then ''.'' else root @ join_slash parts)"

definition remote_dest :: "settings \<Rightarrow> path \<Rightarrow> string" where
  "remote_dest s f = posix_str (posix_join (remote_dir s) (name f))"

subsection \<open>\<^verbatim>\<open>main\<close>: the action after a transfer (lines 199 to 214)\<close>

definition post_action :: "env \<Rightarrow> args \<Rightarrow> path \<Rightarrow> world \<Rightarrow> (exn + unit) \<times> world" where
  "post_action ev a f w =
     (if delete_after a then
        (if dry_run a then (Inr (), w) else io_op ev (unlink f) w)
      else if \<not> keep_local a then
        (case io_op ev (mkdir (sent_dir a)) w of
           (Inl e, w1) \<Rightarrow> (Inl e, w1)
         | (Inr u, w1) \<Rightarrow>
             (let target = sent_dir a @ [name f]
              in if dry_run a then (Inr (), w1)
                 else if path_exists (tree w1) target then
                   (case now_stamp ev w1 of
                      (sfx, w2) \<Rightarrow>
                        io_op ev (shutil_move f (sent_dir a @ [stem f @ ''_'' @ sfx @ suffix f])) w2)
                 else io_op ev (shutil_move f target) w1))
      else (Inr (), w))"

subsection \<open>\<^verbatim>\<open>main\<close>: one file (lines 172 to 224)\<close>

record counters =
  c_ok :: nat
  c_skipped :: nat
  c_fail :: nat

text \<open>How the \<^verbatim>\<open>try\<close> block ends when nothing is raised: by its \<^verbatim>\<open>continue\<close> or by
  reaching its end.\<close>

datatype flow = Continue | Fallthrough

text \<open>
  The \<^verbatim>\<open>try\<close> block mutates the entry and the counters before it may raise, so both are
  returned with the exception as they stand at that moment.
\<close>

definition upload_part ::
  "env \<Rightarrow> settings \<Rightarrow> args \<Rightarrow> path \<Rightarrow> string \<Rightarrow> file_entry \<Rightarrow> counters \<Rightarrow> world
     \<Rightarrow> (exn + flow) \<times> file_entry \<times> counters \<times> world" where
  "upload_part ev s a f rp en c w =
     (case scp_upload ev s f rp (dry_run a) w of
        (Inl e, w1) \<Rightarrow> (Inl e, en, c, w1)
      | (Inr u, w1) \<Rightarrow>
          (case post_action ev a f w1 of
             (Inl e, w2) \<Rightarrow> (Inl e, en, c, w2)
           | (Inr u', w2) \<Rightarrow>
               (Inr Fallthrough, en\<lparr>status := Some Uploaded\<rparr>, c\<lparr>c_ok := c_ok c + 1\<rparr>, w2)))"

definition try_body ::
  "env \<Rightarrow> settings \<Rightarrow> args \<Rightarrow> path \<Rightarrow> path \<Rightarrow> string \<Rightarrow> file_entry \<Rightarrow> counters \<Rightarrow> world
     \<Rightarrow> (exn + flow) \<times> file_entry \<times> counters \<times> world" where
  "try_body ev s a lp f rp en c w =
     (case sha256_file ev f (1024 * 1024) w of
        (Inl e, w1) \<Rightarrow> (Inl e, en, c, w1)
      | (Inr d, w1) \<Rightarrow>
          (let en1 = en\<lparr>sha256_hex := Some d\<rparr>
           in if \<not> overwrite a then
                (case remote_file_exists ev s rp (dry_run a) w1 of
                   (Inl e, w2) \<Rightarrow> (Inl e, en1, c, w2)
                 | (Inr ex, w2) \<Rightarrow>
                     if ex then
                       (let en2 = en1\<lparr>status := Some SkippedRemoteExists\<rparr>;
                            c2 = c\<lparr>c_skipped := c_skipped c + 1\<rparr>
                        in case write_jsonl ev lp (FileEvent en2) w2 of
                             (Inl e, w3) \<Rightarrow> (Inl e, en2, c2, w3)
                           | (Inr u, w3) \<Rightarrow> (Inr Continue, en2, c2, w3))
                     else upload_part ev s a f rp en1 c w2)
              else upload_part ev s a f rp en1 c w1))"

text \<open>Line 224: the entry is written after the \<^verbatim>\<open>try\<close> statement, outside of it.\<close>

definition log_entry ::
  "env \<Rightarrow> path \<Rightarrow> file_entry \<Rightarrow> counters \<Rightarrow> world \<Rightarrow> (exn + counters) \<times> world" where
  "log_entry ev lp en c w =
     (case write_jsonl ev lp (FileEvent en) w of
        (Inl e, w') \<Rightarrow> (Inl e, w')
      | (Inr u, w') \<Rightarrow> (Inr c, w'))"

text \<open>The entry as lines 176 to 185 build it; \<^verbatim>\<open>f.stat()\<close> is outside the \<^verbatim>\<open>try\<close>.\<close>

definition new_entry ::
  "env \<Rightarrow> settings \<Rightarrow> path \<Rightarrow> world \<Rightarrow> (exn + file_entry) \<times> world" where
  "new_entry ev s f w =
     (case utc_iso ev w of
        (t, w0) \<Rightarrow>
          (case io_op ev (stat_size f) w0 of
             (Inl e, w1) \<Rightarrow> (Inl e, w1)
           | (Inr sz, w1) \<Rightarrow>
               (Inr \<lparr>ts = t, local_path = str_path f, remote_path = remote_dest s f,
                     size_bytes = sz, sha256_hex = None, status = None, error = None\<rparr>, w1)))"

definition file_step ::
  "env \<Rightarrow> settings \<Rightarrow> args \<Rightarrow> path \<Rightarrow> path \<Rightarrow> counters \<Rightarrow> world \<Rightarrow> (exn + counters) \<times> world" where
  "file_step ev s a lp f c w =
     (case new_entry ev s f w of
        (Inl e, w1) \<Rightarrow> (Inl e, w1)
      | (Inr en, w1) \<Rightarrow>
          (case try_body ev s a lp f (remote_dest s f) en c w1 of
             (Inr Continue, en', c', w2) \<Rightarrow> (Inr c', w2)
           | (Inr Fallthrough, en', c', w2) \<Rightarrow> log_entry ev lp en' c' w2
           | (Inl (Exception m), en', c', w2) \<Rightarrow>
               log_entry ev lp (en'\<lparr>status := Some Failed, error := Some m\<rparr>)
                 (c'\<lparr>c_fail := c_fail c' + 1\<rparr>) w2))"

fun run_files ::
  "env \<Rightarrow> settings \<Rightarrow> args \<Rightarrow> path \<Rightarrow> path list \<Rightarrow> counters \<Rightarrow> world
     \<Rightarrow> (exn + counters) \<times> world" where
  "run_files ev s a lp [] c w = (Inr c, w)"
| "run_files ev s a lp (f # fs) c w =
     (case file_step ev s a lp f c w of
        (Inl e, w') \<Rightarrow> (Inl e, w')
      | (Inr c', w') \<Rightarrow> run_files ev s a lp fs c' w')"

subsection \<open>\<^verbatim>\<open>main\<close>\<close>

definition make_summary ::
  "settings \<Rightarrow> args \<Rightarrow> path \<Rightarrow> string \<Rightarrow> nat \<Rightarrow> counters \<Rightarrow> summary" where
  "make_summary s a lp t n_total c =
     \<lparr>s_ts = t, s_status = (if c_fail c = 0 then Ok else PartialFail),
      s_local_dir = str_path (local_dir a), s_remote_dir = remote_dir s,
      s_pattern = pattern a, s_recursive = recursive a, s_overwrite = overwrite a,
      s_keep_local = keep_local a, s_delete_after = delete_after a, s_dry_run = dry_run a,
      count_total = n_total, count_uploaded = c_ok c, count_skipped = c_skipped c,
      count_failed = c_fail c, log_file = str_path lp\<rparr>"

text \<open>Lines 168 to 254: the loop, the summary and the returned code.\<close>

definition process_files ::
  "env \<Rightarrow> settings \<Rightarrow> args \<Rightarrow> path \<Rightarrow> path list \<Rightarrow> world \<Rightarrow> (exn + int) \<times> world" where
  "process_files ev s a lp files w =
     (case run_files ev s a lp files \<lparr>c_ok = 0, c_skipped = 0, c_fail = 0\<rparr> w of
        (Inl e, w1) \<Rightarrow> (Inl e, w1)
      | (Inr c, w1) \<Rightarrow>
          (case utc_iso ev w1 of
             (t, w2) \<Rightarrow>
               (case write_jsonl ev lp (RunEnd (make_summary s a lp t (length files) c)) w2 of
                  (Inl e, w3) \<Rightarrow> (Inl e, w3)
                | (Inr u, w3) \<Rightarrow> (Inr (if c_fail c = 0 then 0 else 1), w3))))"

text \<open>The value is what \<^verbatim>\<open>main\<close> returns, which \<^verbatim>\<open>SystemExit\<close> makes the exit code of the
  process; \<open>Inl\<close> is an exception that leaves \<^verbatim>\<open>main\<close>.\<close>

definition main :: "env \<Rightarrow> settings \<Rightarrow> args \<Rightarrow> world \<Rightarrow> (exn + int) \<times> world" where
  "main ev s a w =
     (case validate_env ev s w of
        Inl e \<Rightarrow> (Inl e, w)
      | Inr u \<Rightarrow>
          if \<not> path_exists (tree w) (local_dir a) \<or> \<not> is_dir (tree w) (local_dir a)
          then (Inr 2, w)
          else
            (case make_log_path ev (logs_dir a) w of
               (lp, w1) \<Rightarrow>
                 (case ensure_remote_dir ev s (dry_run a) w1 of
                    (Inl e, w2) \<Rightarrow> (Inl e, w2)
                  | (Inr u', w2) \<Rightarrow>
                      (case iter_files ev (local_dir a) (pattern a) (recursive a) (tree w2) of
                         Inl e \<Rightarrow> (Inl e, w2)
                       | Inr files \<Rightarrow>
                           if files = [] then
                             (case utc_iso ev w2 of
                                (t, w3) \<Rightarrow>
                                  (case write_jsonl ev lp
                                          (NoFiles t (str_path (local_dir a)) (pattern a)) w3 of
                                     (Inl e, w4) \<Rightarrow> (Inl e, w4)
                                   | (Inr u'', w4) \<Rightarrow> (Inr 0, w4)))
                           else process_files ev s a lp files w2))))"

text \<open>
  The exit status of the process, \<^verbatim>\<open>raise SystemExit(main())\<close>: the code that \<^verbatim>\<open>main\<close>
  returns, and 1 when an exception leaves \<^verbatim>\<open>main\<close> (Python prints the traceback and exits
  with 1).
\<close>

definition process_exit :: "exn + int \<Rightarrow> int" where
  "process_exit r = (case r of Inl e \<Rightarrow> 1 | Inr code \<Rightarrow> code)"

section \<open>Reading the log, and sample inputs\<close>

text \<open>The file events of a log that carry a given status, and the summaries in a log.\<close>

definition has_status :: "status \<Rightarrow> path \<times> logrec \<Rightarrow> bool" where
  "has_status st x = (case snd x of FileEvent en \<Rightarrow> status en = Some st | _ \<Rightarrow> False)"

definition events_with :: "status \<Rightarrow> (path \<times> logrec) list \<Rightarrow> nat" where
  "events_with st l = length (filter (has_status st) l)"

definition new_logs :: "world \<Rightarrow> world \<Rightarrow> (path \<times> logrec) list" where
  "new_logs w w' = drop (length (logs w)) (logs w')"

fun summaries :: "(path \<times> logrec) list \<Rightarrow> summary list" where
  "summaries [] = []"
| "summaries ((lp, RunEnd sm) # l) = sm # summaries l"
| "summaries (x # l) = summaries l"

definition counts :: "summary \<Rightarrow> nat \<times> nat \<times> nat \<times> nat" where
  "counts sm = (count_total sm, count_uploaded sm, count_skipped sm, count_failed sm)"

text \<open>The local path that a line of the log is about (empty for a summary).\<close>

definition event_path :: "path \<times> logrec \<Rightarrow> string" where
  "event_path x = (case snd x of FileEvent en \<Rightarrow> local_path en | _ \<Rightarrow> [])"

text \<open>The bytes that the calls of \<^verbatim>\<open>read\<close> returned between two worlds.\<close>

definition new_reads :: "world \<Rightarrow> world \<Rightarrow> nat list" where
  "new_reads w w' = drop (length (reads w)) (reads w')"

text \<open>
  A small world for concrete runs: two files of the same name in two subdirectories of
  \<^verbatim>\<open>/files\<close>, and an archive that already holds a file of that name. In \<open>demo_env\<close> every
  process exits with 0, nothing fails, the clock stands still within one second, every
  path matches the pattern, and the digest function is a stand-in (the length).
\<close>

definition demo_env :: env where
  "demo_env =
     \<lparr>sha256 = (\<lambda>bs. str_nat (length bs)), glob_match = (\<lambda>pat rel. True),
      glob_error = (\<lambda>rec pat. None),
      resolve = (\<lambda>k. [''key.pem'']), proc_result = (\<lambda>n cmd. Inr 0),
      io_fault = (\<lambda>n. None), now_local = (\<lambda>n. ''20240101_120000''),
      now_utc = (\<lambda>n. ''2024-01-01T12:00:00Z'')\<rparr>"

definition demo_settings :: settings where
  "demo_settings =
     \<lparr>host = ''gaio'', port = 4222, user = ''ubuntu'', key_path = ''key.pem'',
      remote_dir = ''/inputs''\<rparr>"

definition demo_args :: args where
  "demo_args =
     \<lparr>local_dir = [''files''], sent_dir = [''sent''], logs_dir = [''logs''], pattern = ''*'',
      recursive = True, overwrite = False, keep_local = False, delete_after = False,
      dry_run = False\<rparr>"

definition file_xa :: path where
  "file_xa = [''files'', ''x'', ''a.csv'']"

definition file_ya :: path where
  "file_ya = [''files'', ''y'', ''a.csv'']"

definition demo_tree :: fsys where
  "demo_tree =
     [([''key.pem''], File []), ([''files''], Dir), ([''files'', ''x''], Dir),
      (file_xa, File [1, 2, 3]), ([''files'', ''y''], Dir), (file_ya, File [4, 5]),
      ([''sent''], Dir), ([''sent'', ''a.csv''], File [9])]"

definition world_of :: "fsys \<Rightarrow> world" where
  "world_of t =
     \<lparr>tree = t, logs = [], procs = [], io_ops = 0, clock_reads = 0, reads = []\<rparr>"

definition demo_world :: world where
  "demo_world = world_of demo_tree"

text \<open>The same tree with one file only, and no archive directory yet.\<close>

definition small_tree :: fsys where
  "small_tree = [([''key.pem''], File []), ([''files''], Dir), ([''files'', ''x''], Dir),
                 (file_xa, File [1, 2, 3])]"

definition demo_log :: path where
  "demo_log = [''logs'', ''upload_20240101_120000.jsonl'']"

text \<open>The environment in which every process exits with the given status.\<close>

definition env_exit :: "int \<Rightarrow> env" where
  "env_exit code = demo_env\<lparr>proc_result := (\<lambda>n cmd. Inr code)\<rparr>"

text \<open>The command line of the existence probe, as \<^verbatim>\<open>remote_file_exists\<close> builds it.\<close>

definition probe_cmd :: "settings \<Rightarrow> string \<Rightarrow> string list" where
  "probe_cmd s rp = ssh_cmd s (''test -f '' @ [CHR 0x27] @ rp @ [CHR 0x27])"

text \<open>The third local input/output operation of the run fails (a full disk); all others
  succeed.\<close>

definition env_log_fault :: env where
  "env_log_fault = demo_env\<lparr>io_fault := (\<lambda>n. if n = 2 then Some ''disk full'' else None)\<rparr>"

text \<open>The host answers the first command and is unreachable from then on: \<^verbatim>\<open>ssh\<close> and
  \<^verbatim>\<open>scp\<close> exit with 255.\<close>

definition env_remote_down :: env where
  "env_remote_down = demo_env\<lparr>proc_result := (\<lambda>n cmd. if n = 0 then Inr 0 else Inr 255)\<rparr>"

definition no_local_dir :: args where
  "no_local_dir = demo_args\<lparr>local_dir := [''missing'']\<rparr>"

definition dry_args :: args where
  "dry_args = demo_args\<lparr>dry_run := True\<rparr>"

text \<open>
  A run in which \<^verbatim>\<open>scp\<close> fails for the first file: the entry of that file, the worlds after
  the entry is built, after the \<^verbatim>\<open>try\<close> block and after the entry is logged.
\<close>

definition zero_counters :: counters where
  "zero_counters = \<lparr>c_ok = 0, c_skipped = 0, c_fail = 0\<rparr>"






definition keep_and_delete :: args where
  "keep_and_delete = demo_args\<lparr>overwrite := True, keep_local := True, delete_after := True\<rparr>"


text \<open>A run that uploads whatever the remote side holds, and the name that the archive
  gives to \<^verbatim>\<open>a.csv\<close> when that name is taken, at the one second of the sample clock.\<close>

definition overwrite_args :: args where
  "overwrite_args = demo_args\<lparr>overwrite := True\<rparr>"

definition archived_name :: path where
  "archived_name = [''sent'', ''a_20240101_120000.csv'']"

text \<open>
  The host is unreachable after the first command, and the third local input/output
  operation of the run (the write of the first file's entry) fails.
\<close>

definition env_unlogged :: env where
  "env_unlogged =
     env_remote_down\<lparr>io_fault := (\<lambda>n. if n = 2 then Some ''disk full'' else None)\<rparr>"

text \<open>The first local input/output operation of the run (the first \<^verbatim>\<open>f.stat()\<close>) fails.\<close>

definition env_stat_fault :: env where
  "env_stat_fault =
     demo_env\<lparr>io_fault := (\<lambda>n. if n = 0 then Some ''[Errno 13] Permission denied''
                               else None)\<rparr>"

text \<open>A world with neither the key nor the local directory.\<close>

definition empty_world :: world where
  "empty_world = world_of []"


section \<open>The fingerprinter\<close>

lemma fread_positive:
  "0 < n \<Longrightarrow>
     fread n rest w
       = ((take (nat n) rest, drop (nat n) rest),
          w\<lparr>reads := reads w @ [min (nat n) (length rest)]\<rparr>)"
  by (simp add: fread_def Let_def min_def)

lemma sha256_loop_frame:
  "sha256_loop n rest h w = (h', w') \<Longrightarrow>
     logs w' = logs w \<and> procs w' = procs w \<and> tree w' = tree w \<and> io_ops w' = io_ops w
     \<and> clock_reads w' = clock_reads w"
proof (induction n rest h w arbitrary: h' w' rule: sha256_loop.induct)
  case (1 n rest h w)
  show ?case
  proof (cases "fst (fst (fread n rest w)) = []")
    case True
    with "1.prems" show ?thesis
      by (auto simp: sha256_loop.simps [of n rest h w] fread_def Let_def)
  next
    case False
    with "1.prems" have
      "sha256_loop n (snd (fst (fread n rest w))) (hash_update h (fst (fst (fread n rest w))))
         (snd (fread n rest w)) = (h', w')"
      by (simp add: sha256_loop.simps [of n rest h w])
    from "1.IH" [OF False this] show ?thesis
      by (simp add: fread_def Let_def)
  qed
qed

text \<open>
  What the loop does for a positive chunk size: the hash object is fed the whole content,
  and the reads return \<open>n\<close> bytes each, then the remainder if there is one, then nothing.
\<close>

lemma sha256_loop_positive:
  "0 < n \<Longrightarrow>
     sha256_loop n rest h w
       = (h @ rest,
          w\<lparr>reads := reads w @ replicate (length rest div nat n) (nat n)
                       @ (if length rest mod nat n = 0 then [] else [length rest mod nat n])
                       @ [0]\<rparr>)"
proof (induction n rest h w rule: sha256_loop.induct)
  case (1 n rest h w)
  let ?N = "nat n"
  have N: "0 < ?N" using "1.prems" by simp
  show ?case
  proof (cases "rest = []")
    case True
    then show ?thesis
      using "1.prems" by (simp add: sha256_loop.simps [of n "[]" h w] fread_positive)
  next
    case False
    with N have ne: "fst (fst (fread n rest w)) \<noteq> []"
      using "1.prems" by (simp add: fread_positive)
    have step: "sha256_loop n rest h w
        = sha256_loop n (drop ?N rest) (h @ take ?N rest)
            (w\<lparr>reads := reads w @ [min ?N (length rest)]\<rparr>)"
      using ne "1.prems"
      by (simp add: sha256_loop.simps [of n rest h w] fread_positive hash_update_def)
    have ih: "sha256_loop n (drop ?N rest) (h @ take ?N rest)
                (w\<lparr>reads := reads w @ [min ?N (length rest)]\<rparr>)
        = ((h @ take ?N rest) @ drop ?N rest,
           w\<lparr>reads := reads w @ [min ?N (length rest)]\<rparr>
            \<lparr>reads := reads (w\<lparr>reads := reads w @ [min ?N (length rest)]\<rparr>)
                @ replicate (length (drop ?N rest) div ?N) ?N
                @ (if length (drop ?N rest) mod ?N = 0 then []
                   else [length (drop ?N rest) mod ?N])
                @ [0]\<rparr>)"
      using "1.IH" [OF ne "1.prems"] "1.prems"
      by (simp add: fread_positive hash_update_def)
    show ?thesis
    proof (cases "?N \<le> length rest")
      case True
      then have d: "length rest div ?N = Suc ((length rest - ?N) div ?N)"
        using N by (simp add: le_div_geq)
      have m: "(length rest - ?N) mod ?N = length rest mod ?N"
        using True by (simp add: le_mod_geq)
      show ?thesis
        unfolding step ih using True d m
        by (simp add: min_def replicate_app_Cons_same)
    next
      case False
      then have "length rest div ?N = 0" "length rest mod ?N = length rest"
        by simp_all
      then show ?thesis
        unfolding step ih using False \<open>rest \<noteq> []\<close>
        by (simp add: min_def)
    qed
  qed
qed

text \<open>With a chunk size of 0 the first read is empty and the hash object is fed nothing;
  a negative chunk size reads the file in one piece.\<close>

lemma sha256_loop_zero: "sha256_loop 0 rest h w = (h, w\<lparr>reads := reads w @ [0]\<rparr>)"
  by (simp add: sha256_loop.simps [of 0 rest h w] fread_def)

text \<open>
  C9. For a positive chunk size, on a file that can be opened: \<^verbatim>\<open>sha256_file\<close> returns the
  SHA-256 of the whole content of the file; the calls of \<^verbatim>\<open>read\<close> return chunks of exactly
  the chunk size, then the remainder, then the empty chunk that ends the loop, so no read
  holds more than the chunk size; and the digest is the same for every positive chunk
  size. \<^verbatim>\<open>main\<close> uses the default of 1048576 bytes.
\<close>

theorem sha256_file_digest:
  assumes "0 < n" and "0 < m" and "io_fault ev (io_ops w) = None"
    and "map_of (tree w) p = Some (File content)"
  shows "sha256_file ev p n w
           = (Inr (sha256 ev content),
              w\<lparr>io_ops := Suc (io_ops w),
                reads := reads w @ replicate (length content div nat n) (nat n)
                           @ (if length content mod nat n = 0 then []
                              else [length content mod nat n])
                           @ [0]\<rparr>)
       \<and> fst (sha256_file ev p m w) = fst (sha256_file ev p n w)
       \<and> (\<forall>r \<in> set (new_reads w (snd (sha256_file ev p n w))). r \<le> nat n)
       \<and> sum_list (new_reads w (snd (sha256_file ev p n w))) = length content"
proof -
  have op: "io_op ev (open_rb p) w = (Inr content, w\<lparr>io_ops := Suc (io_ops w)\<rparr>)"
    using assms(3,4) by (simp add: io_op_def open_rb_def)
  have a: "sha256_file ev p n w
           = (Inr (sha256 ev content),
              w\<lparr>io_ops := Suc (io_ops w),
                reads := reads w @ replicate (length content div nat n) (nat n)
                           @ (if length content mod nat n = 0 then []
                              else [length content mod nat n])
                           @ [0]\<rparr>)"
    using assms(1) by (simp add: sha256_file_def op sha256_loop_positive hexdigest_def)
  have b: "fst (sha256_file ev p m w) = Inr (sha256 ev content)"
    using assms(2) by (simp add: sha256_file_def op sha256_loop_positive hexdigest_def)
  have c: "new_reads w (snd (sha256_file ev p n w))
             = replicate (length content div nat n) (nat n)
               @ (if length content mod nat n = 0 then [] else [length content mod nat n])
               @ [0]"
    by (simp add: a new_reads_def)
  have d: "\<forall>r \<in> set (new_reads w (snd (sha256_file ev p n w))). r \<le> nat n"
    using assms(1) by (auto simp: c split: if_splits intro: less_imp_le)
  have e: "sum_list (new_reads w (snd (sha256_file ev p n w))) = length content"
    using div_mult_mod_eq [of "length content" "nat n"]
    by (auto simp: c sum_list_replicate)
  from a b d e show ?thesis by simp
qed

lemma demo_file_xa: "map_of (tree demo_world) file_xa = Some (File [1, 2, 3])"
  by (simp add: demo_world_def world_of_def demo_tree_def file_xa_def file_ya_def)

lemma demo_no_fault: "io_fault demo_env k = None"
  by (simp add: demo_env_def)

theorem sha256_file_digest_witness:
  "(0::int) < 2 \<and> (0::int) < 1024 * 1024
   \<and> io_fault demo_env (io_ops demo_world) = None
   \<and> map_of (tree demo_world) file_xa = Some (File [1, 2, 3])
   \<and> sha256_file demo_env file_xa 2 demo_world
       = (Inr (sha256 demo_env [1, 2, 3]), demo_world\<lparr>io_ops := 1, reads := [2, 1, 0]\<rparr>)
   \<and> fst (sha256_file demo_env file_xa (1024 * 1024) demo_world)
       = fst (sha256_file demo_env file_xa 2 demo_world)
   \<and> new_reads demo_world (snd (sha256_file demo_env file_xa 2 demo_world)) = [2, 1, 0]"
proof -
  have r: "reads demo_world = []" "io_ops demo_world = 0"
    by (simp_all add: demo_world_def world_of_def)
  have l: "length [1, 2, 3 :: byte] = 3"
    by simp
  have t: "sha256_file demo_env file_xa 2 demo_world
       = (Inr (sha256 demo_env [1, 2, 3]), demo_world\<lparr>io_ops := 1, reads := [2, 1, 0]\<rparr>)
     \<and> fst (sha256_file demo_env file_xa (1024 * 1024) demo_world)
       = fst (sha256_file demo_env file_xa 2 demo_world)"
    using sha256_file_digest [of 2 "1024 * 1024" demo_env demo_world file_xa "[1, 2, 3]",
                              OF _ _ demo_no_fault demo_file_xa, unfolded l] r
    by simp
  then have "new_reads demo_world (snd (sha256_file demo_env file_xa 2 demo_world)) = [2, 1, 0]"
    using r by (simp add: new_reads_def)
  with t show ?thesis
    using demo_no_fault demo_file_xa by simp
qed

section \<open>Frames: what each operation leaves unchanged\<close>


lemma io_op_frame:
  "io_op ev f w = (r, w') \<Longrightarrow>
     logs w' = logs w \<and> procs w' = procs w \<and> clock_reads w' = clock_reads w"
  by (auto simp: io_op_def Let_def split: option.splits sum.splits prod.splits)

lemma write_jsonl_ok:
  "write_jsonl ev lp obj w = (Inr u, w') \<Longrightarrow>
     logs w' = logs w @ [(lp, obj)] \<and> tree w' = tree w \<and> procs w' = procs w
     \<and> io_fault ev (io_ops w) = None"
  by (auto simp: write_jsonl_def Let_def split: option.splits)

lemma write_jsonl_raise:
  "write_jsonl ev lp obj w = (Inl e, w') \<Longrightarrow>
     logs w' = logs w \<and> tree w' = tree w \<and> procs w' = procs w
     \<and> io_fault ev (io_ops w) \<noteq> None"
  by (auto simp: write_jsonl_def Let_def split: option.splits)

lemma run_cmd_frame:
  "run_cmd ev cmd dry w = (r, w') \<Longrightarrow>
     logs w' = logs w \<and> tree w' = tree w \<and> (dry \<longrightarrow> w' = w \<and> r = Inr 0)"
  by (auto simp: run_cmd_def split: if_splits)

lemma open_rb_tree: "open_rb p t = Inr (x, t') \<Longrightarrow> t' = t"
  by (auto simp: open_rb_def split: option.splits node.splits if_splits)

lemma sha256_file_frame:
  assumes "sha256_file ev f n w = (r, w')"
  shows "logs w' = logs w \<and> procs w' = procs w \<and> tree w' = tree w"
proof -
  obtain r1 w1 where op: "io_op ev (open_rb f) w = (r1, w1)"
    by (cases "io_op ev (open_rb f) w")
  then have f1: "logs w1 = logs w \<and> procs w1 = procs w \<and> tree w1 = tree w"
    by (auto simp: io_op_def Let_def dest: open_rb_tree
             split: option.splits sum.splits prod.splits)
  show ?thesis
  proof (cases r1)
    case (Inl e)
    with op assms have "w' = w1" by (simp add: sha256_file_def)
    with f1 show ?thesis by simp
  next
    case (Inr content)
    obtain h w2 where lo: "sha256_loop n content [] w1 = (h, w2)"
      by (cases "sha256_loop n content [] w1")
    with op Inr assms have "w' = w2" by (simp add: sha256_file_def)
    with sha256_loop_frame [OF lo] f1 show ?thesis by simp
  qed
qed

lemma remote_file_exists_frame:
  "remote_file_exists ev s rp dry w = (r, w') \<Longrightarrow>
     logs w' = logs w \<and> tree w' = tree w \<and> (dry \<longrightarrow> w' = w \<and> r = Inr False)"
  by (auto simp: remote_file_exists_def Let_def dest: run_cmd_frame
           split: if_splits prod.splits sum.splits)

lemma scp_upload_frame:
  "scp_upload ev s f rp dry w = (r, w') \<Longrightarrow>
     logs w' = logs w \<and> tree w' = tree w \<and> (dry \<longrightarrow> w' = w \<and> r = Inr ())"
  by (auto simp: scp_upload_def Let_def dest: run_cmd_frame
           split: if_splits prod.splits sum.splits)

lemma now_stamp_frame:
  "now_stamp ev w = (x, w') \<Longrightarrow> logs w' = logs w \<and> tree w' = tree w \<and> procs w' = procs w"
  by (auto simp: now_stamp_def)

lemma utc_iso_frame:
  "utc_iso ev w = (x, w') \<Longrightarrow> logs w' = logs w \<and> tree w' = tree w \<and> procs w' = procs w"
  by (auto simp: utc_iso_def)

lemma post_action_frame:
  "post_action ev a f w = (r, w') \<Longrightarrow> logs w' = logs w \<and> procs w' = procs w"
  by (auto simp: post_action_def Let_def dest!: io_op_frame now_stamp_frame
           split: if_splits prod.splits sum.splits)

lemma upload_part_cases:
  assumes "upload_part ev s a f rp en c w = (r, en', c', w')"
  shows "logs w' = logs w \<and> (dry_run a \<longrightarrow> procs w' = procs w)
       \<and> (case r of
             Inl e \<Rightarrow> en' = en \<and> c' = c
           | Inr fl \<Rightarrow> fl = Fallthrough \<and> en' = en\<lparr>status := Some Uploaded\<rparr>
                        \<and> c' = c\<lparr>c_ok := c_ok c + 1\<rparr>)"
  using assms
  by (auto simp: upload_part_def dest!: scp_upload_frame post_action_frame
           split: prod.splits sum.splits)


lemma try_body_cases:
  assumes "try_body ev s a lp f rp en c w = (r, en', c', w')"
  shows "(dry_run a \<longrightarrow> procs w' = procs w)
       \<and> (case r of
             Inr Continue \<Rightarrow>
               \<not> dry_run a \<and> \<not> overwrite a \<and> status en' = Some SkippedRemoteExists
               \<and> c' = c\<lparr>c_skipped := c_skipped c + 1\<rparr> \<and> logs w' = logs w @ [(lp, FileEvent en')]
           | Inr Fallthrough \<Rightarrow>
               status en' = Some Uploaded \<and> c' = c\<lparr>c_ok := c_ok c + 1\<rparr> \<and> logs w' = logs w
           | Inl e \<Rightarrow>
               logs w' = logs w
               \<and> (c' = c \<or> c' = c\<lparr>c_skipped := c_skipped c + 1\<rparr> \<and> (\<exists>k. io_fault ev k \<noteq> None)))"
  using assms
  apply (simp add: try_body_def Let_def split: prod.splits sum.splits if_splits)
  apply (auto dest!: sha256_file_frame remote_file_exists_frame upload_part_cases
                     write_jsonl_ok write_jsonl_raise
              split: flow.splits sum.splits)
  done


lemma new_entry_frame:
  "new_entry ev s f w = (r, w') \<Longrightarrow> logs w' = logs w \<and> procs w' = procs w"
  by (auto simp: new_entry_def dest!: utc_iso_frame io_op_frame split: prod.splits sum.splits)

lemma log_entry_cases:
  "log_entry ev lp en c w = (r, w') \<Longrightarrow>
     procs w' = procs w \<and> tree w' = tree w
     \<and> (case r of Inl e \<Rightarrow> logs w' = logs w
                 | Inr c' \<Rightarrow> c' = c \<and> logs w' = logs w @ [(lp, FileEvent en)])"
  by (auto simp: log_entry_def dest!: write_jsonl_ok write_jsonl_raise
           split: prod.splits sum.splits)

lemma file_step_raise:
  assumes "file_step ev s a lp f c w = (Inl e, w')"
  shows "logs w' = logs w \<and> (dry_run a \<longrightarrow> procs w' = procs w)"
  using assms
  apply (simp add: file_step_def split: prod.splits sum.splits flow.splits exn.splits)
  apply (auto dest!: new_entry_frame try_body_cases log_entry_cases)
  done

lemma file_step_ok:
  assumes "file_step ev s a lp f c w = (Inr c', w')"
  shows "(dry_run a \<longrightarrow> procs w' = procs w)
       \<and> (\<exists>en. logs w' = logs w @ [(lp, FileEvent en)]
              \<and> (status en = Some Uploaded \<and> c' = c\<lparr>c_ok := c_ok c + 1\<rparr>
                  \<or> status en = Some SkippedRemoteExists \<and> \<not> dry_run a
                      \<and> c' = c\<lparr>c_skipped := c_skipped c + 1\<rparr>
                  \<or> status en = Some Failed
                      \<and> (c' = c\<lparr>c_fail := c_fail c + 1\<rparr>
                          \<or> c' = c\<lparr>c_skipped := c_skipped c + 1, c_fail := c_fail c + 1\<rparr>
                              \<and> (\<exists>k. io_fault ev k \<noteq> None))))"
  using assms
  apply (simp add: file_step_def split: prod.splits sum.splits flow.splits exn.splits)
  apply (auto dest!: new_entry_frame try_body_cases log_entry_cases)
   apply blast+
  done


lemma events_with_append [simp]:
  "events_with st (l @ l') = events_with st l + events_with st l'"
  by (simp add: events_with_def)

lemma events_with_single [simp]:
  "events_with st [(lp, FileEvent en)] = (if status en = Some st then 1 else 0)"
  by (simp add: events_with_def has_status_def)

lemma events_with_Nil [simp]: "events_with st [] = 0"
  by (simp add: events_with_def)

lemma events_with_Cons [simp]:
  "events_with st ((lp, FileEvent en) # l)
     = (if status en = Some st then 1 else 0) + events_with st l"
  by (simp add: events_with_def has_status_def)

lemma run_files_raise:
  "run_files ev s a lp files c w = (Inl e, w') \<Longrightarrow>
     (dry_run a \<longrightarrow> procs w' = procs w)
     \<and> (\<exists>new. logs w' = logs w @ new
              \<and> (dry_run a \<longrightarrow> events_with SkippedRemoteExists new = 0))"
proof (induction files arbitrary: c w)
  case Nil
  then show ?case by simp
next
  case (Cons f fs)
  show ?case
  proof (cases "file_step ev s a lp f c w")
    case (Pair r w1)
    show ?thesis
    proof (cases r)
      case (Inl e')
      with Pair Cons.prems have "w' = w1" "file_step ev s a lp f c w = (Inl e', w')"
        by simp_all
      then show ?thesis
        using file_step_raise [of ev s a lp f c w e' w'] by simp
    next
      case (Inr c1)
      with Pair Cons.prems have rest: "run_files ev s a lp fs c1 w1 = (Inl e, w')"
        by simp
      from Pair Inr have st: "file_step ev s a lp f c w = (Inr c1, w1)"
        by simp
      from file_step_ok [OF st] Cons.IH [OF rest] show ?thesis
        by (auto split: if_splits)
    qed
  qed
qed

lemma run_files_ok:
  "run_files ev s a lp files c w = (Inr c', w') \<Longrightarrow>
     (dry_run a \<longrightarrow> procs w' = procs w)
     \<and> (\<exists>new. logs w' = logs w @ new \<and> length new = length files
              \<and> c_ok c' = c_ok c + events_with Uploaded new
              \<and> c_fail c' = c_fail c + events_with Failed new
              \<and> c_skipped c + events_with SkippedRemoteExists new \<le> c_skipped c'
              \<and> events_with Uploaded new + events_with SkippedRemoteExists new
                  + events_with Failed new = length files
              \<and> (dry_run a \<longrightarrow> events_with SkippedRemoteExists new = 0)
              \<and> ((\<forall>k. io_fault ev k = None) \<longrightarrow>
                    c_skipped c' = c_skipped c + events_with SkippedRemoteExists new))"
proof (induction files arbitrary: c w)
  case Nil
  then show ?case by simp
next
  case (Cons f fs)
  show ?case
  proof (cases "file_step ev s a lp f c w")
    case (Pair r w1)
    show ?thesis
    proof (cases r)
      case (Inl e')
      with Pair Cons.prems show ?thesis by simp
    next
      case (Inr c1)
      with Pair Cons.prems have rest: "run_files ev s a lp fs c1 w1 = (Inr c', w')"
        by simp
      from Pair Inr have st: "file_step ev s a lp f c w = (Inr c1, w1)"
        by simp
      from file_step_ok [OF st] obtain en where
        en: "logs w1 = logs w @ [(lp, FileEvent en)]"
        and cs: "status en = Some Uploaded \<and> c1 = c\<lparr>c_ok := c_ok c + 1\<rparr>
                  \<or> status en = Some SkippedRemoteExists \<and> \<not> dry_run a
                      \<and> c1 = c\<lparr>c_skipped := c_skipped c + 1\<rparr>
                  \<or> status en = Some Failed
                      \<and> (c1 = c\<lparr>c_fail := c_fail c + 1\<rparr>
                          \<or> c1 = c\<lparr>c_skipped := c_skipped c + 1, c_fail := c_fail c + 1\<rparr>
                              \<and> (\<exists>k. io_fault ev k \<noteq> None))"
        and pr: "dry_run a \<longrightarrow> procs w1 = procs w"
        by blast
      from Cons.IH [OF rest] obtain new where
        new: "logs w' = logs w1 @ new" "length new = length fs"
          "c_ok c' = c_ok c1 + events_with Uploaded new"
          "c_fail c' = c_fail c1 + events_with Failed new"
          "c_skipped c1 + events_with SkippedRemoteExists new \<le> c_skipped c'"
          "events_with Uploaded new + events_with SkippedRemoteExists new
             + events_with Failed new = length fs"
          "dry_run a \<longrightarrow> events_with SkippedRemoteExists new = 0"
          "(\<forall>k. io_fault ev k = None) \<longrightarrow>
             c_skipped c' = c_skipped c1 + events_with SkippedRemoteExists new"
        and pr': "dry_run a \<longrightarrow> procs w' = procs w1"
        by blast
      have "logs w' = logs w @ ((lp, FileEvent en) # new)"
        using en new(1) by simp
      moreover have "length ((lp, FileEvent en) # new) = length (f # fs)"
        using new(2) by simp
      moreover have k_ok: "c_ok c1 = c_ok c + (if status en = Some Uploaded then 1 else 0)"
        using cs by auto
      moreover have k_fail: "c_fail c1 = c_fail c + (if status en = Some Failed then 1 else 0)"
        using cs by auto
      moreover have k_sk:
        "c_skipped c + (if status en = Some SkippedRemoteExists then 1 else 0) \<le> c_skipped c1"
        using cs by auto
      moreover have k_nf: "(\<forall>k. io_fault ev k = None) \<longrightarrow>
          c_skipped c1 = c_skipped c + (if status en = Some SkippedRemoteExists then 1 else 0)"
        using cs by auto
      moreover have k_one:
        "(if status en = Some Uploaded then 1 else 0)
           + (if status en = Some SkippedRemoteExists then 1 else 0)
           + (if status en = Some Failed then 1 else (0::nat)) = 1"
        using cs by auto
      moreover have k_dry: "dry_run a \<longrightarrow> status en \<noteq> Some SkippedRemoteExists"
        using cs by auto
      moreover have "dry_run a \<longrightarrow> procs w' = procs w"
        using pr pr' by simp
      ultimately have
        "logs w' = logs w @ ((lp, FileEvent en) # new)
         \<and> length ((lp, FileEvent en) # new) = length (f # fs)
         \<and> c_ok c' = c_ok c + events_with Uploaded ((lp, FileEvent en) # new)
         \<and> c_fail c' = c_fail c + events_with Failed ((lp, FileEvent en) # new)
         \<and> c_skipped c + events_with SkippedRemoteExists ((lp, FileEvent en) # new)
               \<le> c_skipped c'
         \<and> events_with Uploaded ((lp, FileEvent en) # new)
               + events_with SkippedRemoteExists ((lp, FileEvent en) # new)
               + events_with Failed ((lp, FileEvent en) # new) = length (f # fs)
         \<and> (dry_run a \<longrightarrow> events_with SkippedRemoteExists ((lp, FileEvent en) # new) = 0)
         \<and> ((\<forall>k. io_fault ev k = None) \<longrightarrow>
               c_skipped c' = c_skipped c
                 + events_with SkippedRemoteExists ((lp, FileEvent en) # new))"
        using new(3-8) by (simp only: events_with_Cons) (simp split: if_splits)
      then show ?thesis
        using \<open>dry_run a \<longrightarrow> procs w' = procs w\<close> by blast
    qed
  qed
qed


section \<open>The remote probe and the remote destination\<close>

text \<open>
  C4, as stated, fails. \<^verbatim>\<open>ssh\<close> exits with 255 when it cannot reach the host and with the
  status of \<^verbatim>\<open>test -f\<close> (1 for a missing file) otherwise; the probe answers \<open>False\<close> to
  both, so a failed probe is not told apart from a missing file.
\<close>

theorem probe_failure_counterexample:
  "fst (remote_file_exists (env_exit 255) demo_settings ''/inputs/a.csv'' False demo_world)
     = Inr False
   \<and> fst (remote_file_exists (env_exit 1) demo_settings ''/inputs/a.csv'' False demo_world)
     = Inr False"
  by (simp add: remote_file_exists_def run_cmd_def env_exit_def demo_env_def)

text \<open>
  C4, amended. Outside a dry run the probe spawns one process and answers with a
  boolean: true when the exit status is 0, false for every other exit status, whatever
  made the command fail.
\<close>

theorem probe_is_exit_status:
  "proc_result ev (length (procs w)) (probe_cmd s rp) = Inr code \<Longrightarrow>
   remote_file_exists ev s rp False w
     = (Inr (code = 0), w\<lparr>procs := procs w @ [probe_cmd s rp]\<rparr>)"
  by (simp add: remote_file_exists_def run_cmd_def probe_cmd_def)

theorem probe_is_exit_status_witness:
  "proc_result (env_exit 255) (length (procs demo_world)) (probe_cmd demo_settings ''/inputs/a.csv'')
     = Inr 255
   \<and> remote_file_exists (env_exit 255) demo_settings ''/inputs/a.csv'' False demo_world
     = (Inr False, demo_world\<lparr>procs := procs demo_world @ [probe_cmd demo_settings ''/inputs/a.csv'']\<rparr>)"
proof -
  have h: "proc_result (env_exit 255) (length (procs demo_world))
             (probe_cmd demo_settings ''/inputs/a.csv'') = Inr 255"
    by (simp add: env_exit_def demo_env_def)
  show ?thesis
    using h probe_is_exit_status [OF h] by simp
qed

lemma stem_suffix: "stem p @ suffix p = name p"
  by (simp add: stem_def suffix_def Let_def)

text \<open>
  C10. The remote destination of a file is computed from the remote directory and the
  base name of the file alone, and it is the destination that the log entry records: two
  files with the same base name get the same destination, wherever they lie under the
  scanned directory.
\<close>

theorem remote_dest_by_name:
  assumes "name f1 = name f2"
  shows "remote_dest s f1 = remote_dest s f2
       \<and> remote_dest s f1 = posix_str (posix_join (remote_dir s) (name f2))
       \<and> (new_entry ev s f1 w = (Inr en, w') \<longrightarrow> remote_path en = remote_dest s f2)"
  using assms
  by (auto simp: remote_dest_def new_entry_def utc_iso_def split: prod.splits sum.splits)

lemma demo_listing:
  "iter_files demo_env (local_dir demo_args) (pattern demo_args) True demo_tree = Inr [file_xa, file_ya]"
  by (simp add: iter_files_def demo_env_def demo_args_def demo_tree_def file_xa_def file_ya_def
                is_file_def)

lemma demo_dest: "remote_dest demo_settings file_xa = ''/inputs/a.csv''"
  by (simp add: remote_dest_def demo_settings_def file_xa_def name_def posix_join_def
                posix_str_def)

theorem remote_dest_by_name_witness:
  "name file_xa = name file_ya \<and> file_xa \<noteq> file_ya
   \<and> iter_files demo_env (local_dir demo_args) (pattern demo_args) True demo_tree
       = Inr [file_xa, file_ya]
   \<and> remote_dest demo_settings file_xa = remote_dest demo_settings file_ya
   \<and> remote_dest demo_settings file_ya = ''/inputs/a.csv''"
proof -
  have h: "name file_xa = name file_ya"
    by (simp add: name_def file_xa_def file_ya_def)
  have d: "file_xa \<noteq> file_ya"
    by (simp add: file_xa_def file_ya_def)
  show ?thesis
    using h d demo_dest demo_listing remote_dest_by_name [OF h, of demo_settings] by simp
qed


section \<open>The run: summary and exit code\<close>

lemma is_dir_exists: "is_dir t p \<Longrightarrow> path_exists t p"
  by (auto simp: is_dir_def path_exists_def)

lemma events_with_other [simp]:
  "events_with st [(lp, RunEnd sm)] = 0" "events_with st [(lp, NoFiles x y z)] = 0"
  by (simp_all add: events_with_def has_status_def)

lemma make_log_path_frame:
  "make_log_path ev ld w = (lp, w') \<Longrightarrow>
     logs w' = logs w \<and> tree w' = tree w \<and> procs w' = procs w"
  by (auto simp: make_log_path_def dest!: now_stamp_frame split: prod.splits)

lemma ensure_remote_dir_frame:
  "ensure_remote_dir ev s dry w = (r, w') \<Longrightarrow>
     logs w' = logs w \<and> tree w' = tree w \<and> (dry \<longrightarrow> w' = w \<and> r = Inr ())"
  by (auto simp: ensure_remote_dir_def dest: run_cmd_frame
           split: if_splits prod.splits sum.splits)

lemma process_files_ok:
  assumes "process_files ev s a lp files w = (Inr code, w')"
  shows "\<exists>new sm. logs w' = logs w @ new @ [(lp, RunEnd sm)] \<and> length new = length files
           \<and> (dry_run a \<longrightarrow> procs w' = procs w)
           \<and> count_total sm = length files
           \<and> count_uploaded sm = events_with Uploaded new
           \<and> count_failed sm = events_with Failed new
           \<and> events_with SkippedRemoteExists new \<le> count_skipped sm
           \<and> events_with Uploaded new + events_with SkippedRemoteExists new
               + events_with Failed new = length files
           \<and> (dry_run a \<longrightarrow> events_with SkippedRemoteExists new = 0)
           \<and> ((\<forall>k. io_fault ev k = None) \<longrightarrow>
                 count_skipped sm = events_with SkippedRemoteExists new)
           \<and> s_status sm = (if count_failed sm = 0 then Ok else PartialFail)
           \<and> code = (if count_failed sm = 0 then 0 else 1)"
proof -
  from assms obtain c w1 t w2 where
    run: "run_files ev s a lp files \<lparr>c_ok = 0, c_skipped = 0, c_fail = 0\<rparr> w = (Inr c, w1)"
    and ts: "utc_iso ev w1 = (t, w2)"
    and wr: "write_jsonl ev lp (RunEnd (make_summary s a lp t (length files) c)) w2
               = (Inr (), w')"
    and code: "code = (if c_fail c = 0 then 0 else 1)"
    by (auto simp: process_files_def split: prod.splits sum.splits)
  from run_files_ok [OF run] obtain new where
    new: "logs w1 = logs w @ new" "length new = length files"
      "c_ok c = events_with Uploaded new" "c_fail c = events_with Failed new"
      "events_with SkippedRemoteExists new \<le> c_skipped c"
      "events_with Uploaded new + events_with SkippedRemoteExists new
         + events_with Failed new = length files"
      "dry_run a \<longrightarrow> events_with SkippedRemoteExists new = 0"
      "(\<forall>k. io_fault ev k = None) \<longrightarrow> c_skipped c = events_with SkippedRemoteExists new"
    and pr: "dry_run a \<longrightarrow> procs w1 = procs w"
    by auto
  let ?sm = "make_summary s a lp t (length files) c"
  have "logs w' = logs w @ new @ [(lp, RunEnd ?sm)]"
    using utc_iso_frame [OF ts] write_jsonl_ok [OF wr] new(1) by simp
  moreover have "dry_run a \<longrightarrow> procs w' = procs w"
    using utc_iso_frame [OF ts] write_jsonl_ok [OF wr] pr by simp
  ultimately show ?thesis
    using new(2-8) code
    apply (intro exI [of _ new] exI [of _ ?sm])
    apply (simp add: make_summary_def)
    done
qed

lemma process_files_raise:
  assumes "process_files ev s a lp files w = (Inl e, w')"
  shows "(dry_run a \<longrightarrow> procs w' = procs w)
       \<and> (\<exists>new. logs w' = logs w @ new
              \<and> (dry_run a \<longrightarrow> events_with SkippedRemoteExists new = 0))"
proof (cases "run_files ev s a lp files \<lparr>c_ok = 0, c_skipped = 0, c_fail = 0\<rparr> w")
  case (Pair r w1)
  show ?thesis
  proof (cases r)
    case (Inl e')
    with Pair assms have "run_files ev s a lp files \<lparr>c_ok = 0, c_skipped = 0, c_fail = 0\<rparr> w
                            = (Inl e', w')"
      by (simp add: process_files_def)
    from run_files_raise [OF this] show ?thesis .
  next
    case (Inr c)
    with Pair have run:
      "run_files ev s a lp files \<lparr>c_ok = 0, c_skipped = 0, c_fail = 0\<rparr> w = (Inr c, w1)"
      by simp
    with assms obtain t w2 where
      ts: "utc_iso ev w1 = (t, w2)"
      and wr: "write_jsonl ev lp (RunEnd (make_summary s a lp t (length files) c)) w2
                 = (Inl e, w')"
      by (auto simp: process_files_def split: prod.splits sum.splits)
    from run_files_ok [OF run] obtain new where
      "logs w1 = logs w @ new" "dry_run a \<longrightarrow> events_with SkippedRemoteExists new = 0"
      "dry_run a \<longrightarrow> procs w1 = procs w"
      by auto
    then show ?thesis
      using utc_iso_frame [OF ts] write_jsonl_raise [OF wr] by auto
  qed
qed


lemma main_invalid_dir:
  "validate_env ev s w = Inr () \<Longrightarrow> \<not> is_dir (tree w) (local_dir a) \<Longrightarrow>
     main ev s a w = (Inr 2, w)"
  by (simp add: main_def)

lemma main_ok:
  assumes "main ev s a w = (Inr code, w')"
  shows "if \<not> is_dir (tree w) (local_dir a) then code = 2 \<and> w' = w
         else (dry_run a \<longrightarrow> procs w' = procs w)
              \<and> (\<exists>new. logs w' = logs w @ new
                     \<and> code = (if events_with Failed new = 0 then 0 else 1)
                     \<and> (dry_run a \<longrightarrow> events_with SkippedRemoteExists new = 0))"
proof (cases "is_dir (tree w) (local_dir a)")
  case False
  with assms show ?thesis
    by (auto simp: main_def split: sum.splits)
next
  case True
  then have ex: "path_exists (tree w) (local_dir a)"
    by (rule is_dir_exists)
  from assms True ex obtain lp w1 w2 files where
    lp: "make_log_path ev (logs_dir a) w = (lp, w1)"
    and rd: "ensure_remote_dir ev s (dry_run a) w1 = (Inr (), w2)"
    and it: "iter_files ev (local_dir a) (pattern a) (recursive a) (tree w2) = Inr files"
    and rest: "(if files = [] then
                  (case utc_iso ev w2 of
                     (t, w3) \<Rightarrow>
                       (case write_jsonl ev lp
                               (NoFiles t (str_path (local_dir a)) (pattern a)) w3 of
                          (Inl e, w4) \<Rightarrow> (Inl e, w4)
                        | (Inr u'', w4) \<Rightarrow> (Inr 0, w4)))
                else process_files ev s a lp files w2) = (Inr code, w')"
    by (auto simp: main_def split: sum.splits prod.splits)
  have fr: "logs w2 = logs w" "dry_run a \<longrightarrow> procs w2 = procs w"
    using make_log_path_frame [OF lp] ensure_remote_dir_frame [OF rd] by auto
  show ?thesis
  proof (cases "files = []")
    case True
    with rest obtain t w3 where
      ts: "utc_iso ev w2 = (t, w3)"
      and wr: "write_jsonl ev lp (NoFiles t (str_path (local_dir a)) (pattern a)) w3
                 = (Inr (), w')"
      and code: "code = 0"
      by (auto split: prod.splits sum.splits)
    have "logs w' = logs w @ [(lp, NoFiles t (str_path (local_dir a)) (pattern a))]"
      using utc_iso_frame [OF ts] write_jsonl_ok [OF wr] fr by simp
    moreover have "dry_run a \<longrightarrow> procs w' = procs w"
      using utc_iso_frame [OF ts] write_jsonl_ok [OF wr] fr by simp
    ultimately show ?thesis
      using \<open>is_dir (tree w) (local_dir a)\<close> code
      by (auto intro!: exI [of _ "[(lp, NoFiles t (str_path (local_dir a)) (pattern a))]"])
  next
    case False
    with rest have pf: "process_files ev s a lp files w2 = (Inr code, w')"
      by simp
    from process_files_ok [OF pf] obtain new sm where
      n: "logs w' = logs w2 @ new @ [(lp, RunEnd sm)]"
         "dry_run a \<longrightarrow> procs w' = procs w2"
         "count_failed sm = events_with Failed new"
         "dry_run a \<longrightarrow> events_with SkippedRemoteExists new = 0"
         "code = (if count_failed sm = 0 then 0 else 1)"
      by blast
    have "logs w' = logs w @ (new @ [(lp, RunEnd sm)])"
      using n(1) fr by simp
    moreover have "events_with Failed (new @ [(lp, RunEnd sm)]) = events_with Failed new"
      "events_with SkippedRemoteExists (new @ [(lp, RunEnd sm)])
         = events_with SkippedRemoteExists new"
      by simp_all
    ultimately show ?thesis
      using \<open>is_dir (tree w) (local_dir a)\<close> n(2-5) fr
      by (auto intro!: exI [of _ "new @ [(lp, RunEnd sm)]"])
  qed
qed

lemma main_raise:
  assumes "main ev s a w = (Inl e, w')"
  shows "(dry_run a \<longrightarrow> procs w' = procs w)
       \<and> (\<exists>new. logs w' = logs w @ new
              \<and> (dry_run a \<longrightarrow> events_with SkippedRemoteExists new = 0))"
proof (cases "validate_env ev s w")
  case (Inl e')
  with assms show ?thesis by (simp add: main_def)
next
  case (Inr u)
  with assms have ok: "path_exists (tree w) (local_dir a)" "is_dir (tree w) (local_dir a)"
    by (auto simp: main_def split: if_splits)
  obtain lp w1 where lp: "make_log_path ev (logs_dir a) w = (lp, w1)"
    by (cases "make_log_path ev (logs_dir a) w")
  obtain r w2 where rd: "ensure_remote_dir ev s (dry_run a) w1 = (r, w2)"
    by (cases "ensure_remote_dir ev s (dry_run a) w1")
  have fr: "logs w2 = logs w" "dry_run a \<longrightarrow> procs w2 = procs w"
    using make_log_path_frame [OF lp] ensure_remote_dir_frame [OF rd] by auto
  show ?thesis
  proof (cases r)
    case (Inl e')
    with assms Inr ok lp rd have "w' = w2"
      by (simp add: main_def)
    with fr show ?thesis by simp
  next
    case r_ok: (Inr u')
    show ?thesis
    proof (cases "iter_files ev (local_dir a) (pattern a) (recursive a) (tree w2)")
      case (Inl e')
      with assms Inr ok lp rd r_ok have "w' = w2"
        by (simp add: main_def)
      with fr show ?thesis by simp
    next
      case files: (Inr files)
      show ?thesis
      proof (cases "files = []")
        case True
        with assms Inr ok lp rd r_ok files obtain t w3 where
          ts: "utc_iso ev w2 = (t, w3)"
          and wr: "write_jsonl ev lp (NoFiles t (str_path (local_dir a)) (pattern a)) w3
                     = (Inl e, w')"
          by (auto simp: main_def split: prod.splits sum.splits)
        show ?thesis
          using utc_iso_frame [OF ts] write_jsonl_raise [OF wr] fr by simp
      next
        case False
        with assms Inr ok lp rd r_ok files
        have pf: "process_files ev s a lp files w2 = (Inl e, w')"
          by (simp add: main_def)
        from process_files_raise [OF pf] fr show ?thesis
          by auto
      qed
    qed
  qed
qed


lemma sha256_loop_default:
  "sha256_loop 1048576 rest h w
     = (h @ rest,
        w\<lparr>reads := reads w @ replicate (length rest div 1048576) 1048576
                     @ (if length rest mod 1048576 = 0 then [] else [length rest mod 1048576])
                     @ [0]\<rparr>)"
  using sha256_loop_positive [of 1048576 rest h w] by simp

lemmas run_defs = sha256_loop_default main_def validate_env_def make_log_path_def now_stamp_def utc_iso_def
  ensure_remote_dir_def run_cmd_def iter_files_def process_files_def file_step_def
  new_entry_def try_body_def upload_part_def post_action_def log_entry_def write_jsonl_def
  sha256_file_def io_op_def open_rb_def stat_size_def remote_file_exists_def
  scp_upload_def unlink_def mkdir_def shutil_move_def rename_file_def make_summary_def
  path_exists_def is_dir_def is_file_def hexdigest_def Let_def

lemmas demo_defs = demo_env_def demo_settings_def demo_args_def demo_tree_def small_tree_def
  world_of_def demo_world_def file_xa_def file_ya_def env_exit_def env_log_fault_def
  env_remote_down_def no_local_dir_def env_unlogged_def env_stat_fault_def empty_world_def

lemma new_logs_append: "logs w' = logs w @ new \<Longrightarrow> new_logs w w' = new"
  by (simp add: new_logs_def)

text \<open>
  C6, as stated, fails: a run can end with an exception that leaves \<^verbatim>\<open>main\<close>, and the
  process then exits with 1. When every remote command exits with 255 the remote
  \<^verbatim>\<open>mkdir\<close> fails: no file has failed, none was even processed, and the exit status is 1,
  not 0. When neither the key nor the local directory exists, \<^verbatim>\<open>validate_env\<close> raises
  before the directory is looked at, and the exit status is 1, not 2.
\<close>

theorem exit_code_counterexample:
  "events_with Failed
     (new_logs demo_world (snd (main (env_exit 255) demo_settings demo_args demo_world))) = 0
   \<and> process_exit (fst (main (env_exit 255) demo_settings demo_args demo_world)) = 1
   \<and> \<not> is_dir (tree empty_world) (local_dir no_local_dir)
   \<and> process_exit (fst (main demo_env demo_settings no_local_dir empty_world)) = 1"
  by (simp add: run_defs demo_defs process_exit_def new_logs_def events_with_def
                has_status_def)

text \<open>
  C6, amended. When the key exists and the local source directory is missing or not a
  directory, \<^verbatim>\<open>main\<close> returns 2 and touches nothing. Whenever \<^verbatim>\<open>main\<close> returns, the exit
  status is the code it returns: 2 exactly in that case, and otherwise 0 when the run
  logged no failed file and 1 when it logged one or more. When an exception leaves
  \<^verbatim>\<open>main\<close> the exit status is 1.
\<close>

theorem exit_code:
  "(validate_env ev s w = Inr () \<and> \<not> is_dir (tree w) (local_dir a)
      \<longrightarrow> main ev s a w = (Inr 2, w))
   \<and> (main ev s a w = (Inr code, w') \<longrightarrow>
        process_exit (fst (main ev s a w)) = code
        \<and> (if \<not> is_dir (tree w) (local_dir a) then code = 2 \<and> w' = w
            else code = (if events_with Failed (new_logs w w') = 0 then 0 else 1)))
   \<and> (main ev s a w = (Inl e, w') \<longrightarrow> process_exit (fst (main ev s a w)) = 1)"
proof (intro conjI impI)
  assume "validate_env ev s w = Inr () \<and> \<not> is_dir (tree w) (local_dir a)"
  then show "main ev s a w = (Inr 2, w)"
    by (simp add: main_invalid_dir)
next
  assume m: "main ev s a w = (Inr code, w')"
  then show "process_exit (fst (main ev s a w)) = code"
    by (simp add: process_exit_def)
  show "if \<not> is_dir (tree w) (local_dir a) then code = 2 \<and> w' = w
        else code = (if events_with Failed (new_logs w w') = 0 then 0 else 1)"
    using main_ok [OF m] by (auto simp: new_logs_append)
next
  assume "main ev s a w = (Inl e, w')"
  then show "process_exit (fst (main ev s a w)) = 1"
    by (simp add: process_exit_def)
qed

lemma run_all_skipped:
  "fst (main demo_env demo_settings demo_args demo_world) = Inr 0"
  by (simp add: run_defs demo_defs)

lemma run_remote_down:
  "fst (main env_remote_down demo_settings demo_args demo_world) = Inr 1"
  by (simp add: run_defs demo_defs)

lemma run_remote_down_failed:
  "events_with Failed (new_logs demo_world (snd (main env_remote_down demo_settings demo_args demo_world))) = 2"
  by (simp add: run_defs demo_defs new_logs_def events_with_def has_status_def)

lemma run_all_skipped_failed:
  "events_with Failed (new_logs demo_world (snd (main demo_env demo_settings demo_args demo_world))) = 0"
  by (simp add: run_defs demo_defs new_logs_def events_with_def has_status_def)

lemma run_mkdir_fails:
  "fst (main (env_exit 255) demo_settings demo_args demo_world)
     = Inl (Exception (''Falha ao criar/verificar pasta remota (exit='' @ str_int 255 @ '').''))"
  by (simp add: run_defs demo_defs)

lemma demo_key_ok: "validate_env demo_env demo_settings demo_world = Inr ()"
  by (simp add: run_defs demo_defs)

lemma demo_dir_ok: "is_dir (tree demo_world) (local_dir demo_args)"
  by (simp add: run_defs demo_defs)

lemma demo_dir_missing: "\<not> is_dir (tree demo_world) (local_dir no_local_dir)"
  by (simp add: run_defs demo_defs)

theorem exit_code_witness:
  "validate_env demo_env demo_settings demo_world = Inr ()
   \<and> \<not> is_dir (tree demo_world) (local_dir no_local_dir)
   \<and> main demo_env demo_settings no_local_dir demo_world = (Inr 2, demo_world)
   \<and> is_dir (tree demo_world) (local_dir demo_args)
   \<and> process_exit (fst (main demo_env demo_settings demo_args demo_world)) = 0
   \<and> events_with Failed
        (new_logs demo_world (snd (main demo_env demo_settings demo_args demo_world))) = 0
   \<and> process_exit (fst (main env_remote_down demo_settings demo_args demo_world)) = 1
   \<and> events_with Failed
        (new_logs demo_world (snd (main env_remote_down demo_settings demo_args demo_world))) = 2
   \<and> process_exit (fst (main (env_exit 255) demo_settings demo_args demo_world)) = 1"
proof -
  have a: "main demo_env demo_settings demo_args demo_world
             = (Inr 0, snd (main demo_env demo_settings demo_args demo_world))"
    using run_all_skipped by (simp add: prod_eq_iff)
  have b: "main env_remote_down demo_settings demo_args demo_world
             = (Inr 1, snd (main env_remote_down demo_settings demo_args demo_world))"
    using run_remote_down by (simp add: prod_eq_iff)
  have c: "main (env_exit 255) demo_settings demo_args demo_world
             = (Inl (Exception (''Falha ao criar/verificar pasta remota (exit=''
                                 @ str_int 255 @ '').'')),
                snd (main (env_exit 255) demo_settings demo_args demo_world))"
    using run_mkdir_fails by (simp add: prod_eq_iff)
  have c2: "main demo_env demo_settings no_local_dir demo_world = (Inr 2, demo_world)"
    using exit_code [THEN conjunct1, rule_format, of demo_env demo_settings demo_world
                       no_local_dir] demo_key_ok demo_dir_missing
    by blast
  have c0: "process_exit (fst (main demo_env demo_settings demo_args demo_world)) = 0
            \<and> (0::int) = (if events_with Failed (new_logs demo_world
                (snd (main demo_env demo_settings demo_args demo_world))) = 0 then 0 else 1)"
    using exit_code [THEN conjunct2, THEN conjunct1, rule_format, OF a] demo_dir_ok by simp
  have c1: "process_exit (fst (main env_remote_down demo_settings demo_args demo_world)) = 1"
    using exit_code [THEN conjunct2, THEN conjunct1, rule_format, OF b] by simp
  have c3: "process_exit (fst (main (env_exit 255) demo_settings demo_args demo_world)) = 1"
    using exit_code [THEN conjunct2, THEN conjunct2, rule_format, OF c] by simp
  from c0 have "events_with Failed (new_logs demo_world
                  (snd (main demo_env demo_settings demo_args demo_world))) = 0"
    by (simp split: if_splits)
  with c0 c1 c2 c3 show ?thesis
    using demo_key_ok demo_dir_ok demo_dir_missing run_remote_down_failed
    by simp
qed

text \<open>
  C8. In a dry run the probe answers \<open>False\<close> and leaves the world as it is: no process is
  spawned. Hence a dry run, however it ends, spawns no process at all and logs no file
  as \<^verbatim>\<open>skipped_remote_exists\<close>.
\<close>

theorem dry_run_probe:
  "remote_file_exists ev s rp True w = (Inr False, w)
   \<and> (dry_run a \<and> main ev s a w = (r, w') \<longrightarrow>
        events_with SkippedRemoteExists (new_logs w w') = 0 \<and> procs w' = procs w)"
proof (intro conjI impI)
  show "remote_file_exists ev s rp True w = (Inr False, w)"
    by (simp add: remote_file_exists_def)
next
  assume h: "dry_run a \<and> main ev s a w = (r, w')"
  show "events_with SkippedRemoteExists (new_logs w w') = 0"
  proof (cases r)
    case (Inl e)
    with h main_raise [of ev s a w e w'] show ?thesis
      by (auto simp: new_logs_append)
  next
    case (Inr code)
    with h main_ok [of ev s a w code w'] show ?thesis
      by (auto simp: new_logs_def split: if_splits)
  qed
  show "procs w' = procs w"
  proof (cases r)
    case (Inl e)
    with h main_raise [of ev s a w e w'] show ?thesis
      by auto
  next
    case (Inr code)
    with h main_ok [of ev s a w code w'] show ?thesis
      by (auto split: if_splits)
  qed
qed


lemma run_dry_events:
  "events_with Uploaded (new_logs demo_world (snd (main demo_env demo_settings dry_args demo_world))) = 2"
  by (simp add: run_defs demo_defs dry_args_def new_logs_def events_with_def has_status_def
                mkdir_parents.simps)

lemma run_wet_events:
  "events_with SkippedRemoteExists (new_logs demo_world (snd (main demo_env demo_settings demo_args demo_world))) = 2"
  by (simp add: run_defs demo_defs new_logs_def events_with_def has_status_def)

theorem dry_run_probe_witness:
  "dry_run dry_args \<and> \<not> overwrite dry_args
   \<and> remote_file_exists demo_env demo_settings ''/inputs/a.csv'' True demo_world
       = (Inr False, demo_world)
   \<and> events_with SkippedRemoteExists
        (new_logs demo_world (snd (main demo_env demo_settings dry_args demo_world))) = 0
   \<and> procs (snd (main demo_env demo_settings dry_args demo_world)) = procs demo_world
   \<and> events_with Uploaded
        (new_logs demo_world (snd (main demo_env demo_settings dry_args demo_world))) = 2
   \<and> events_with SkippedRemoteExists
        (new_logs demo_world (snd (main demo_env demo_settings demo_args demo_world))) = 2"
proof -
  have d: "dry_run dry_args" "\<not> overwrite dry_args"
    by (simp_all add: dry_args_def demo_args_def)
  show ?thesis
    using d run_dry_events run_wet_events
      dry_run_probe [of demo_env demo_settings "''/inputs/a.csv''" demo_world dry_args
                        "fst (main demo_env demo_settings dry_args demo_world)"
                        "snd (main demo_env demo_settings dry_args demo_world)"]
    by simp
qed

text \<open>
  C5 fails on the code at this input: one file, already present on the remote side, and a
  log write that fails once. The skip branch increments \<^verbatim>\<open>skipped\<close> and then writes the
  entry inside the \<^verbatim>\<open>try\<close> block; the failed write is caught, \<^verbatim>\<open>fail\<close> is incremented as
  well, and the summary counts one file twice: total 1, uploaded 0, skipped 1, failed 1.
  What holds in general is \<open>process_files_ok\<close>: the status is \<open>Ok\<close> exactly when no file
  failed, uploaded and failed count the logged events, and the three counts add up to
  the total when no input/output operation fails.
\<close>

theorem skipped_file_counted_twice:
  "fst (main env_log_fault demo_settings demo_args (world_of small_tree)) = Inr 1
   \<and> map counts (summaries (logs (snd (main env_log_fault demo_settings demo_args
                                            (world_of small_tree))))) = [(1, 0, 1, 1)]"
  by (simp add: run_defs demo_defs counts_def)

theorem skipped_file_counted_twice_witness:
  "hd (map counts (summaries (logs (snd (main env_log_fault demo_settings demo_args
                                            (world_of small_tree)))))) = (1, 0, 1, 1)"
  using skipped_file_counted_twice by simp

section \<open>The action after a transfer\<close>

lemma unlink_others:
  "unlink f t = Inr (u, t') \<Longrightarrow> p \<noteq> f \<Longrightarrow> map_of t' p = map_of t p"
  by (auto simp: unlink_def split: option.splits node.splits if_splits)

lemma unlink_gone:
  "unlink f t = Inr (u, t') \<Longrightarrow> is_file t f \<and> map_of t' f = None"
  by (auto simp: unlink_def is_file_def AList.delete_conv' split: option.splits node.splits if_splits)

lemma post_action_delete:
  assumes "delete_after a" and "post_action ev a f w = (r, w')"
  shows "if dry_run a then r = Inr () \<and> w' = w
         else (r, w') = io_op ev (unlink f) w
              \<and> (\<forall>p. p \<noteq> f \<longrightarrow> map_of (tree w') p = map_of (tree w) p)
              \<and> (r = Inr () \<longrightarrow> is_file (tree w) f \<and> map_of (tree w') f = None)
              \<and> (r \<noteq> Inr () \<longrightarrow> tree w' = tree w)"
proof (cases "dry_run a")
  case True
  with assms show ?thesis by (simp add: post_action_def)
next
  case False
  with assms have eq: "io_op ev (unlink f) w = (r, w')"
    by (simp add: post_action_def)
  have others: "\<forall>p. p \<noteq> f \<longrightarrow> map_of (tree w') p = map_of (tree w) p"
    using eq
    by (auto simp: io_op_def Let_def dest: unlink_others
             split: option.splits sum.splits prod.splits)
  have gone: "r = Inr () \<longrightarrow> is_file (tree w) f \<and> map_of (tree w') f = None"
    using eq
    by (auto simp: io_op_def Let_def dest: unlink_gone
             split: option.splits sum.splits prod.splits)
  have kept: "r \<noteq> Inr () \<longrightarrow> tree w' = tree w"
    using eq
    by (auto simp: io_op_def Let_def split: option.splits sum.splits prod.splits)
  from False eq others gone kept show ?thesis by simp
qed

text \<open>The \<^verbatim>\<open>try\<close> block touches the tree through the action after the transfer only, and
  reaches its end only after that action has succeeded.\<close>

lemma upload_part_tree:
  "upload_part ev s a f rp en c w = (r, en', c', w') \<Longrightarrow>
     (tree w' = tree w \<and> r \<noteq> Inr Fallthrough)
     \<or> (\<exists>w1 r1. tree w1 = tree w \<and> post_action ev a f w1 = (r1, w')
               \<and> (r = Inr Fallthrough \<longrightarrow> r1 = Inr ()))"
  by (auto simp: upload_part_def dest: scp_upload_frame split: prod.splits sum.splits)

lemma try_body_tree:
  assumes "try_body ev s a lp f rp en c w = (r, en', c', w')"
  shows "(tree w' = tree w \<and> r \<noteq> Inr Fallthrough)
       \<or> (\<exists>w1 r1. tree w1 = tree w \<and> post_action ev a f w1 = (r1, w')
                 \<and> (r = Inr Fallthrough \<longrightarrow> r1 = Inr ()))"
proof -
  obtain r0 w0 where sh: "sha256_file ev f (1024 * 1024) w = (r0, w0)"
    by (cases "sha256_file ev f (1024 * 1024) w")
  then have t0: "tree w0 = tree w"
    using sha256_file_frame by blast
  show ?thesis
  proof (cases r0)
    case (Inl e)
    with sh assms t0 show ?thesis by (auto simp: try_body_def)
  next
    case (Inr d)
    show ?thesis
    proof (cases "overwrite a")
      case True
      with sh Inr assms have
        "upload_part ev s a f rp (en\<lparr>sha256_hex := Some d\<rparr>) c w0 = (r, en', c', w')"
        by (simp add: try_body_def)
      from upload_part_tree [OF this] t0 show ?thesis by simp
    next
      case False
      obtain r2 w2 where pr: "remote_file_exists ev s rp (dry_run a) w0 = (r2, w2)"
        by (cases "remote_file_exists ev s rp (dry_run a) w0")
      then have t2: "tree w2 = tree w"
        using remote_file_exists_frame t0 by metis
      show ?thesis
      proof (cases r2)
        case (Inl e)
        with sh Inr False pr assms t2 show ?thesis by (auto simp: try_body_def)
      next
        case ex: (Inr b)
        show ?thesis
        proof (cases b)
          case True
          with sh Inr False pr ex assms have "tree w' = tree w2 \<and> r \<noteq> Inr Fallthrough"
            by (auto simp: try_body_def Let_def dest: write_jsonl_ok write_jsonl_raise
                     split: prod.splits sum.splits)
          with t2 show ?thesis by simp
        next
          case nb: False
          with sh Inr False pr ex assms have
            "upload_part ev s a f rp (en\<lparr>sha256_hex := Some d\<rparr>) c w2 = (r, en', c', w')"
            by (simp add: try_body_def)
          from upload_part_tree [OF this] t2 show ?thesis by simp
        qed
      qed
    qed
  qed
qed

lemma new_entry_tree: "new_entry ev s f w = (r, w') \<Longrightarrow> tree w' = tree w"
  by (auto simp: new_entry_def stat_size_def io_op_def Let_def dest!: utc_iso_frame
           split: prod.splits sum.splits option.splits node.splits if_splits)

text \<open>A step that ends with an \<^verbatim>\<open>uploaded\<close> event has run the action after the transfer,
  with success, on the tree it started from, and has not touched the tree otherwise.\<close>

lemma file_step_uploaded:
  assumes "file_step ev s a lp f c w = (Inr c', w')"
    and "events_with Uploaded (new_logs w w') = 1"
  shows "\<exists>w1 w2. tree w1 = tree w \<and> post_action ev a f w1 = (Inr (), w2) \<and> tree w' = tree w2"
proof -
  from assms(1) obtain en w0 where ne: "new_entry ev s f w = (Inr en, w0)"
    by (auto simp: file_step_def split: prod.splits sum.splits)
  have f0: "tree w0 = tree w" "logs w0 = logs w"
    using new_entry_tree [OF ne] new_entry_frame [OF ne] by simp_all
  obtain r2 en' c2 w2 where tb:
    "try_body ev s a lp f (remote_dest s f) en c w0 = (r2, en', c2, w2)"
    by (cases "try_body ev s a lp f (remote_dest s f) en c w0") auto
  note cases = try_body_cases [OF tb]
  show ?thesis
  proof (cases r2)
    case (Inl e)
    obtain m where m: "e = Exception m" by (cases e)
    with Inl ne tb assms(1) have
      "log_entry ev lp (en'\<lparr>status := Some Failed, error := Some m\<rparr>)
         (c2\<lparr>c_fail := c_fail c2 + 1\<rparr>) w2 = (Inr c', w')"
      by (simp add: file_step_def)
    from log_entry_cases [OF this] cases Inl f0
    have "new_logs w w' = [(lp, FileEvent (en'\<lparr>status := Some Failed, error := Some m\<rparr>))]"
      by (simp add: new_logs_def)
    with assms(2) show ?thesis by simp
  next
    case (Inr fl)
    show ?thesis
    proof (cases fl)
      case Continue
      with Inr ne tb assms(1) have "w' = w2" by (simp add: file_step_def)
      with cases Inr Continue f0 have "new_logs w w' = [(lp, FileEvent en')]"
        "status en' = Some SkippedRemoteExists"
        by (simp_all add: new_logs_def)
      with assms(2) show ?thesis by simp
    next
      case Fallthrough
      with Inr ne tb assms(1) have "log_entry ev lp en' c2 w2 = (Inr c', w')"
        by (simp add: file_step_def)
      then have t': "tree w' = tree w2"
        using log_entry_cases by blast
      from try_body_tree [OF tb] Inr Fallthrough obtain w1 where
        "tree w1 = tree w0" "post_action ev a f w1 = (Inr (), w2)"
        by auto
      with f0 t' show ?thesis by auto
    qed
  qed
qed

lemma file_step_tree:
  assumes "file_step ev s a lp f c w = (r, w')"
  shows "tree w' = tree w
       \<or> (\<exists>w1 r1 w2. tree w1 = tree w \<and> post_action ev a f w1 = (r1, w2) \<and> tree w' = tree w2)"
proof -
  obtain r0 w0 where ne: "new_entry ev s f w = (r0, w0)"
    by (cases "new_entry ev s f w")
  have t0: "tree w0 = tree w"
    using new_entry_tree [OF ne] .
  show ?thesis
  proof (cases r0)
    case (Inl e)
    with ne assms t0 show ?thesis by (simp add: file_step_def)
  next
    case (Inr en)
    obtain r2 en' c2 w2 where tb:
      "try_body ev s a lp f (remote_dest s f) en c w0 = (r2, en', c2, w2)"
      by (cases "try_body ev s a lp f (remote_dest s f) en c w0") auto
    have "tree w' = tree w2"
      using ne Inr tb assms
      by (auto simp: file_step_def dest: log_entry_cases
               split: sum.splits flow.splits exn.splits)
    with try_body_tree [OF tb] t0 show ?thesis by auto
  qed
qed

lemma post_action_delete_only:
  assumes "delete_after a" and "post_action ev a f w = (r, w')"
  shows "map_of (tree w') p = map_of (tree w) p \<or> map_of (tree w') p = None"
  using post_action_delete [OF assms] by (cases "dry_run a"; cases "r = Inr ()"; cases "p = f") auto

lemma run_files_delete_only:
  "delete_after a \<Longrightarrow> run_files ev s a lp files c w = (r, w') \<Longrightarrow>
     map_of (tree w') p = map_of (tree w) p \<or> map_of (tree w') p = None"
proof (induction files arbitrary: c w)
  case Nil
  then show ?case by simp
next
  case (Cons f fs)
  obtain r1 w1 where st: "file_step ev s a lp f c w = (r1, w1)"
    by (cases "file_step ev s a lp f c w")
  have one: "map_of (tree w1) p = map_of (tree w) p \<or> map_of (tree w1) p = None"
    using file_step_tree [OF st] post_action_delete_only [OF Cons.prems(1)] by metis
  show ?case
  proof (cases r1)
    case (Inl e)
    with st Cons.prems(2) have "w' = w1" by simp
    with one show ?thesis by simp
  next
    case (Inr c1)
    with st Cons.prems(2) have "run_files ev s a lp fs c1 w1 = (r, w')" by simp
    from Cons.IH [OF Cons.prems(1) this] one show ?thesis by auto
  qed
qed

lemma process_files_tree:
  "process_files ev s a lp files w = (r, w') \<Longrightarrow>
     \<exists>r1 w1. run_files ev s a lp files \<lparr>c_ok = 0, c_skipped = 0, c_fail = 0\<rparr> w = (r1, w1)
            \<and> tree w' = tree w1"
  by (auto simp: process_files_def dest!: utc_iso_frame write_jsonl_ok write_jsonl_raise
           split: prod.splits sum.splits)

lemma main_tree:
  assumes "main ev s a w = (r, w')"
  shows "tree w' = tree w
       \<or> (\<exists>lp files c w2 r1 w3. tree w2 = tree w \<and> run_files ev s a lp files c w2 = (r1, w3)
              \<and> tree w' = tree w3)"
proof (cases "validate_env ev s w")
  case (Inl e)
  with assms show ?thesis by (simp add: main_def)
next
  case (Inr u)
  show ?thesis
  proof (cases "is_dir (tree w) (local_dir a)")
    case False
    with Inr assms show ?thesis by (simp add: main_def)
  next
    case True
    then have ok: "path_exists (tree w) (local_dir a)"
      by (rule is_dir_exists)
    obtain lp w1 where lp: "make_log_path ev (logs_dir a) w = (lp, w1)"
      by (cases "make_log_path ev (logs_dir a) w")
    obtain r2 w2 where rd: "ensure_remote_dir ev s (dry_run a) w1 = (r2, w2)"
      by (cases "ensure_remote_dir ev s (dry_run a) w1")
    have t2: "tree w2 = tree w"
      using make_log_path_frame [OF lp] ensure_remote_dir_frame [OF rd] by simp
    show ?thesis
    proof (cases r2)
      case (Inl e)
      with assms Inr True ok lp rd t2 show ?thesis by (simp add: main_def)
    next
      case r_ok: (Inr u')
      show ?thesis
      proof (cases "iter_files ev (local_dir a) (pattern a) (recursive a) (tree w2)")
        case (Inl e)
        with assms Inr True ok lp rd r_ok t2 show ?thesis by (simp add: main_def)
      next
        case files: (Inr files)
        show ?thesis
        proof (cases "files = []")
          case True
          with assms Inr \<open>is_dir (tree w) (local_dir a)\<close> ok lp rd r_ok files
          have "tree w' = tree w2"
            by (auto simp: main_def dest!: utc_iso_frame write_jsonl_ok write_jsonl_raise
                     split: prod.splits sum.splits)
          with t2 show ?thesis by simp
        next
          case False
          with assms Inr True ok lp rd r_ok files
          have "process_files ev s a lp files w2 = (r, w')"
            by (simp add: main_def)
          from process_files_tree [OF this] t2 show ?thesis by blast
        qed
      qed
    qed
  qed
qed

text \<open>
  C7. With \<^verbatim>\<open>delete_after\<close> set, whatever \<^verbatim>\<open>keep_local\<close> says: the action after a transfer
  is \<^verbatim>\<open>f.unlink()\<close> (simulated in a dry run); a file whose step ends with an \<^verbatim>\<open>uploaded\<close>
  event has been deleted, and nothing else in the tree has changed; and over a whole run
  no path gains or changes its content, so nothing is moved to the archive.
\<close>

theorem delete_after_precedence:
  assumes "delete_after a"
  shows "(post_action ev a f w = (r, w') \<longrightarrow>
            (if dry_run a then r = Inr () \<and> w' = w else (r, w') = io_op ev (unlink f) w))
       \<and> (file_step ev s a lp f c w = (Inr c1, w1) \<and> events_with Uploaded (new_logs w w1) = 1
            \<longrightarrow> (if dry_run a then tree w1 = tree w
                 else is_file (tree w) f \<and> map_of (tree w1) f = None
                      \<and> (\<forall>p. p \<noteq> f \<longrightarrow> map_of (tree w1) p = map_of (tree w) p)))
       \<and> (main ev s a w = (r2, w2) \<longrightarrow>
            (\<forall>p. map_of (tree w2) p = map_of (tree w) p \<or> map_of (tree w2) p = None))"
proof (intro conjI impI)
  assume "post_action ev a f w = (r, w')"
  from post_action_delete [OF assms this]
  show "if dry_run a then r = Inr () \<and> w' = w else (r, w') = io_op ev (unlink f) w"
    by (simp split: if_splits)
next
  assume "file_step ev s a lp f c w = (Inr c1, w1) \<and> events_with Uploaded (new_logs w w1) = 1"
  then obtain wa wb where
    w: "tree wa = tree w" "post_action ev a f wa = (Inr (), wb)" "tree w1 = tree wb"
    using file_step_uploaded by blast
  from post_action_delete [OF assms w(2)] w(1,3)
  show "if dry_run a then tree w1 = tree w
        else is_file (tree w) f \<and> map_of (tree w1) f = None
             \<and> (\<forall>p. p \<noteq> f \<longrightarrow> map_of (tree w1) p = map_of (tree w) p)"
    by (simp split: if_splits)
next
  assume m: "main ev s a w = (r2, w2)"
  show "\<forall>p. map_of (tree w2) p = map_of (tree w) p \<or> map_of (tree w2) p = None"
    using main_tree [OF m] run_files_delete_only [OF assms] by metis
qed

lemma run_delete_step:
  "file_step demo_env demo_settings keep_and_delete demo_log file_xa zero_counters demo_world
     = (Inr (zero_counters\<lparr>c_ok := 1\<rparr>),
        snd (file_step demo_env demo_settings keep_and_delete demo_log file_xa zero_counters
               demo_world))"
  by (simp add: prod_eq_iff run_defs demo_defs keep_and_delete_def zero_counters_def)

lemma run_delete_step_event:
  "events_with Uploaded
     (new_logs demo_world
        (snd (file_step demo_env demo_settings keep_and_delete demo_log file_xa zero_counters
                demo_world))) = 1"
  by (simp add: run_defs demo_defs keep_and_delete_def zero_counters_def new_logs_def
                events_with_def has_status_def)

lemma run_delete_main:
  "tree (snd (main demo_env demo_settings keep_and_delete demo_world))
     = [([''key.pem''], File []), ([''files''], Dir), ([''files'', ''x''], Dir),
        ([''files'', ''y''], Dir), ([''sent''], Dir), ([''sent'', ''a.csv''], File [9])]"
  by (simp add: run_defs demo_defs keep_and_delete_def)

theorem delete_after_precedence_witness:
  "delete_after keep_and_delete \<and> keep_local keep_and_delete \<and> \<not> dry_run keep_and_delete
   \<and> events_with Uploaded
        (new_logs demo_world
           (snd (file_step demo_env demo_settings keep_and_delete demo_log file_xa
                   zero_counters demo_world))) = 1
   \<and> is_file (tree demo_world) file_xa
   \<and> map_of (tree (snd (file_step demo_env demo_settings keep_and_delete demo_log file_xa
                          zero_counters demo_world))) file_xa = None
   \<and> map_of (tree (snd (file_step demo_env demo_settings keep_and_delete demo_log file_xa
                          zero_counters demo_world))) [''sent'', ''a.csv''] = Some (File [9])
   \<and> tree (snd (main demo_env demo_settings keep_and_delete demo_world))
       = [([''key.pem''], File []), ([''files''], Dir), ([''files'', ''x''], Dir),
          ([''files'', ''y''], Dir), ([''sent''], Dir), ([''sent'', ''a.csv''], File [9])]"
proof -
  have d: "delete_after keep_and_delete" "keep_local keep_and_delete"
          "\<not> dry_run keep_and_delete"
    by (simp_all add: keep_and_delete_def demo_args_def)
  have k: "map_of (tree demo_world) [''sent'', ''a.csv''] = Some (File [9])"
          "[''sent'', ''a.csv''] \<noteq> file_xa"
    by (simp_all add: demo_world_def world_of_def demo_tree_def file_xa_def file_ya_def)
  have "is_file (tree demo_world) file_xa
        \<and> map_of (tree (snd (file_step demo_env demo_settings keep_and_delete demo_log
                                file_xa zero_counters demo_world))) file_xa = None
        \<and> (\<forall>p. p \<noteq> file_xa \<longrightarrow>
              map_of (tree (snd (file_step demo_env demo_settings keep_and_delete demo_log
                                   file_xa zero_counters demo_world))) p
                = map_of (tree demo_world) p)"
    using delete_after_precedence [OF d(1), THEN conjunct2, THEN conjunct1, rule_format,
            OF conjI [OF run_delete_step run_delete_step_event]] d(3)
    by simp
  with k d run_delete_step_event run_delete_main show ?thesis
    by simp
qed

section \<open>The isolation of failures\<close>








lemma upload_part_reached:
  "sha256_file ev f (1024 * 1024) w = (Inr d, w1) \<Longrightarrow>
   overwrite a \<or> remote_file_exists ev s rp (dry_run a) w1 = (Inr False, w2) \<Longrightarrow>
     try_body ev s a lp f rp en c w
       = upload_part ev s a f rp (en\<lparr>sha256_hex := Some d\<rparr>) c (if overwrite a then w1 else w2)"
  by (auto simp: try_body_def)

lemma event_path_file [simp]: "event_path (lp, FileEvent en) = local_path en"
  by (simp add: event_path_def)















section \<open>Dry runs and the archive\<close>

text \<open>
  C2 fails on the code at this input: a dry run with the default flags over one file,
  with no archive directory yet. \<^verbatim>\<open>sent_dir.mkdir(parents=True, exist_ok=True)\<close> (line 205)
  runs before the test of \<^verbatim>\<open>dry_run\<close> (line 207), so the dry run creates the archive
  directory. No process is spawned in a dry run (\<open>dry_run_probe\<close>).
\<close>

theorem dry_run_creates_archive_dir:
  "dry_run dry_args \<and> \<not> path_exists (tree (world_of small_tree)) (sent_dir dry_args)
   \<and> fst (main demo_env demo_settings dry_args (world_of small_tree)) = Inr 0
   \<and> tree (snd (main demo_env demo_settings dry_args (world_of small_tree)))
       = small_tree @ [(sent_dir dry_args, Dir)]"
  by (simp add: run_defs demo_defs dry_args_def mkdir_parents.simps)

theorem dry_run_creates_archive_dir_witness:
  "map_of (tree (world_of small_tree)) [''sent''] = None
   \<and> map_of (tree (snd (main demo_env demo_settings dry_args (world_of small_tree))))
        [''sent''] = Some Dir"
  using dry_run_creates_archive_dir
  by (simp add: dry_args_def demo_args_def world_of_def small_tree_def file_xa_def)

lemma stem_xa: "stem file_xa = ''a''" "suffix file_xa = ''.csv''" "name file_xa = ''a.csv''"
  by (simp_all add: stem_def suffix_def name_def file_xa_def Let_def)

lemma stem_ya: "stem file_ya = ''a''" "suffix file_ya = ''.csv''" "name file_ya = ''a.csv''"
  by (simp_all add: stem_def suffix_def name_def file_ya_def Let_def)

lemma first_archived:
  "map_of (tree (snd (run_files demo_env demo_settings overwrite_args demo_log [file_xa]
                        zero_counters demo_world))) archived_name = Some (File [1, 2, 3])"
  by (simp add: run_defs demo_defs overwrite_args_def archived_name_def zero_counters_def
                mkdir_parents.simps stem_xa [unfolded file_xa_def]
                name_def AList.delete_conv' AList.update_conv')

text \<open>
  C3 fails on the code at this input: a recursive run over \<^verbatim>\<open>x/a.csv\<close> and \<^verbatim>\<open>y/a.csv\<close>, an
  archive that already holds \<^verbatim>\<open>a.csv\<close>, and both files handled within one second. Each
  finds the plain name taken and is renamed with the time stamp, to the same name: the
  second move replaces the archived copy of the first, whose content is then nowhere.
\<close>

theorem archive_same_second_overwrites:
  "fst (main demo_env demo_settings overwrite_args demo_world) = Inr 0
   \<and> events_with Uploaded
        (new_logs demo_world (snd (main demo_env demo_settings overwrite_args demo_world))) = 2
   \<and> map_of (tree (snd (run_files demo_env demo_settings overwrite_args demo_log [file_xa]
                          zero_counters demo_world))) archived_name = Some (File [1, 2, 3])
   \<and> map_of (tree (snd (main demo_env demo_settings overwrite_args demo_world))) archived_name
       = Some (File [4, 5])
   \<and> File [1, 2, 3] \<notin> snd ` set (tree (snd (main demo_env demo_settings overwrite_args
                                                 demo_world)))"
  using first_archived
  by (simp add: run_defs demo_defs overwrite_args_def archived_name_def
                new_logs_def events_with_def has_status_def
                mkdir_parents.simps stem_xa [unfolded file_xa_def] stem_ya [unfolded file_ya_def]
                name_def AList.delete_conv' AList.update_conv')

theorem archive_same_second_overwrites_witness:
  "map_of (tree (snd (main demo_env demo_settings overwrite_args demo_world))) archived_name
     \<noteq> map_of (tree (snd (run_files demo_env demo_settings overwrite_args demo_log [file_xa]
                               zero_counters demo_world))) archived_name"
  using archive_same_second_overwrites by simp

end
